theory Spec2Isabelle
  imports Complex_Main "HOL-Library.Word" "HOL-Library.AList" "HOL-Library.Sublist"
    "HOL-Library.Log_Nat"
begin

unbundle bit_operations_syntax

section \<open>Common conventions\<close>

text \<open>
  The development embeds the two Python sources of the repository:
  \<^verbatim>\<open>packages/core/src/scrapling-service.py\<close> (the scrape endpoint with its adaptive
  selector store) and \<^verbatim>\<open>workers/browser-worker.py\<close> (the crawler).

  An instance of \<^verbatim>\<open>Exception\<close> is represented by its message \<^verbatim>\<open>str(e)\<close>, which is all the
  sources ever read of an exception.  A Python \<^verbatim>\<open>str\<close> is a \<^typ>\<open>string\<close>; a character is
  read as the code point of the same number (0 to 255).
\<close>

type_synonym exn = string

text \<open>
  What a call may raise: an instance of \<^verbatim>\<open>Exception\<close>, with its message, or a
  \<^verbatim>\<open>BaseException\<close> that is not an \<^verbatim>\<open>Exception\<close> (\<^verbatim>\<open>asyncio.CancelledError\<close> at an \<^verbatim>\<open>await\<close>,
  \<^verbatim>\<open>KeyboardInterrupt\<close>), with the name of its class.  \<^verbatim>\<open>except Exception\<close> catches the first
  kind only.
\<close>

datatype raised = Exception exn | Escaping string

subsection \<open>Floats\<close>

text \<open>
  A Python \<^verbatim>\<open>float\<close> is an IEEE 754 binary64 number, written here as the rational it
  denotes.  \<open>round_to_double q\<close> is the binary64 number nearest to \<open>q\<close>, ties to even: 53
  significant bits, and a least exponent of \<open>-1074\<close> for the subnormal numbers.  A float
  literal is the rounded decimal, and the sum of two floats, like the quotient of two
  integers, is the rounded exact result.  Overflow to infinity is left out: no value
  of the sources comes near \<open>2 ^ 1024\<close>.
\<close>

type_synonym double = rat

definition pow2 :: "int \<Rightarrow> rat" where
  "pow2 k = (if 0 \<le> k then 2 ^ nat k else 1 / 2 ^ nat (- k))"

text \<open>For \<open>0 < q\<close>, the \<open>e\<close> with \<open>2 ^ e \<le> q < 2 ^ (e + 1)\<close>.\<close>

definition floor_log2 :: "rat \<Rightarrow> int" where
  "floor_log2 q = (if 1 \<le> q then bitlen \<lfloor>q\<rfloor> - 1 else - bitlen (\<lceil>1 / q\<rceil> - 1))"

definition round_half_even :: "rat \<Rightarrow> int" where
  "round_half_even x =
     (let f = \<lfloor>x\<rfloor>; d = x - of_int f in
      if d < 1 / 2 then f
      else if 1 / 2 < d then f + 1
      else if even f then f else f + 1)"

definition round_to_double :: "rat \<Rightarrow> double" where
  "round_to_double q =
     (if q = 0 then 0
      else
        (let p = max (floor_log2 \<bar>q\<bar> - 52) (- 1074);
             m = round_half_even (\<bar>q\<bar> / pow2 p)
         in sgn q * of_int m * pow2 p))"

definition float_add :: "double \<Rightarrow> double \<Rightarrow> double" where
  "float_add a b = round_to_double (a + b)"

section \<open>Library functions used by \<^verbatim>\<open>get_domain_hash\<close>\<close>

subsection \<open>\<^verbatim>\<open>hashlib.md5(...).hexdigest()\<close>\<close>

text \<open>
  The MD5 message digest of RFC 1321, on bytes: per-round shift amounts, the sine table,
  the four auxiliary functions, the padding and the little-endian output.
\<close>

definition md5_s :: "nat list" where
  "md5_s = [7, 12, 17, 22, 7, 12, 17, 22, 7, 12, 17, 22, 7, 12, 17, 22,
            5, 9, 14, 20, 5, 9, 14, 20, 5, 9, 14, 20, 5, 9, 14, 20,
            4, 11, 16, 23, 4, 11, 16, 23, 4, 11, 16, 23, 4, 11, 16, 23,
            6, 10, 15, 21, 6, 10, 15, 21, 6, 10, 15, 21, 6, 10, 15, 21]"

definition md5_K :: "32 word list" where
  "md5_K = [0xd76aa478, 0xe8c7b756, 0x242070db, 0xc1bdceee,
            0xf57c0faf, 0x4787c62a, 0xa8304613, 0xfd469501,
            0x698098d8, 0x8b44f7af, 0xffff5bb1, 0x895cd7be,
            0x6b901122, 0xfd987193, 0xa679438e, 0x49b40821,
            0xf61e2562, 0xc040b340, 0x265e5a51, 0xe9b6c7aa,
            0xd62f105d, 0x02441453, 0xd8a1e681, 0xe7d3fbc8,
            0x21e1cde6, 0xc33707d6, 0xf4d50d87, 0x455a14ed,
            0xa9e3e905, 0xfcefa3f8, 0x676f02d9, 0x8d2a4c8a,
            0xfffa3942, 0x8771f681, 0x6d9d6122, 0xfde5380c,
            0xa4beea44, 0x4bdecfa9, 0xf6bb4b60, 0xbebfbc70,
            0x289b7ec6, 0xeaa127fa, 0xd4ef3085, 0x04881d05,
            0xd9d4d039, 0xe6db99e5, 0x1fa27cf8, 0xc4ac5665,
            0xf4292244, 0x432aff97, 0xab9423a7, 0xfc93a039,
            0x655b59c3, 0x8f0ccc92, 0xffeff47d, 0x85845dd1,
            0x6fa87e4f, 0xfe2ce6e0, 0xa3014314, 0x4e0811a1,
            0xf7537e82, 0xbd3af235, 0x2ad7d2bb, 0xeb86d391]"

definition rotl32 :: "32 word \<Rightarrow> nat \<Rightarrow> 32 word" where
  "rotl32 x n = (push_bit n x) OR (drop_bit (32 - n) x)"

definition md5_g :: "nat \<Rightarrow> nat" where
  "md5_g i = (if i < 16 then i
              else if i < 32 then (5 * i + 1) mod 16
              else if i < 48 then (3 * i + 5) mod 16
              else (7 * i) mod 16)"

definition md5_F :: "nat \<Rightarrow> 32 word \<Rightarrow> 32 word \<Rightarrow> 32 word \<Rightarrow> 32 word" where
  "md5_F i b c d = (if i < 16 then (b AND c) OR (NOT b AND d)
                    else if i < 32 then (d AND b) OR (NOT d AND c)
                    else if i < 48 then b XOR c XOR d
                    else c XOR (b OR NOT d))"

type_synonym md5_state = "32 word \<times> 32 word \<times> 32 word \<times> 32 word"

definition md5_round :: "32 word list \<Rightarrow> md5_state \<Rightarrow> nat \<Rightarrow> md5_state" where
  "md5_round m st i = (case st of (a, b, c, d) \<Rightarrow>
     (d, b + rotl32 (md5_F i b c d + a + md5_K ! i + m ! md5_g i) (md5_s ! i), b, c))"

definition word_le :: "8 word list \<Rightarrow> 32 word" where
  "word_le bs = foldr (\<lambda>b w. ucast b OR push_bit 8 w) bs 0"

fun chunks :: "nat \<Rightarrow> 'a list \<Rightarrow> 'a list list" where
  "chunks n [] = []"
| "chunks n xs = (if n = 0 then [xs] else take n xs # chunks n (drop n xs))"

definition md5_block :: "md5_state \<Rightarrow> 8 word list \<Rightarrow> md5_state" where
  "md5_block st blk =
     (let m = map word_le (chunks 4 blk) in
      case (st, foldl (md5_round m) st [0..<64]) of
        ((a0, b0, c0, d0), (a, b, c, d)) \<Rightarrow> (a0 + a, b0 + b, c0 + c, d0 + d))"

definition bytes_le :: "nat \<Rightarrow> 'a::len word \<Rightarrow> 8 word list" where
  "bytes_le n w = map (\<lambda>k. ucast (drop_bit (8 * k) w)) [0..<n]"

definition md5_pad :: "8 word list \<Rightarrow> 8 word list" where
  "md5_pad msg =
     msg @ [0x80] @ replicate ((55 + 64 - length msg mod 64) mod 64) 0
         @ bytes_le 8 (8 * of_nat (length msg) :: 64 word)"

definition md5_digest :: "8 word list \<Rightarrow> 8 word list" where
  "md5_digest msg =
     (case foldl md5_block (0x67452301, 0xefcdab89, 0x98badcfe, 0x10325476)
             (chunks 64 (md5_pad msg)) of
        (a, b, c, d) \<Rightarrow> concat (map (bytes_le 4) [a, b, c, d]))"

definition hex_digit :: "nat \<Rightarrow> char" where
  "hex_digit n = ''0123456789abcdef'' ! n"

definition hexdigest :: "8 word list \<Rightarrow> string" where
  "hexdigest bs =
     concat (map (\<lambda>b. [hex_digit (unat (drop_bit 4 b)), hex_digit (unat (b AND 15))]) bs)"

text \<open>\<^verbatim>\<open>str.encode()\<close>: UTF-8, for code points below 256.\<close>

definition encode_utf8 :: "string \<Rightarrow> 8 word list" where
  "encode_utf8 s = concat (map (\<lambda>c.
      let n = (of_char c :: 8 word) in
      if n < 128 then [n] else [192 OR drop_bit 6 n, 128 OR (n AND 63)]) s)"

subsection \<open>\<^verbatim>\<open>urllib.parse.urlparse(url).netloc\<close>\<close>

text \<open>
  The part of CPython's \<^verbatim>\<open>urlsplit\<close> (3.11) that decides \<^verbatim>\<open>netloc\<close>: leading C0 control
  characters and spaces are stripped, tab, CR and LF are removed everywhere, a leading
  scheme is split off at the first colon when everything before it is a scheme
  character and the first character is an ASCII letter, and the network location is
  what follows a leading \<^verbatim>\<open>//\<close> up to the first \<^verbatim>\<open>/\<close>, \<^verbatim>\<open>?\<close> or \<^verbatim>\<open>#\<close>.  Nothing changes the
  case of \<^verbatim>\<open>netloc\<close> (only of the scheme).

  \<^verbatim>\<open>urlsplit\<close> raises \<^verbatim>\<open>ValueError\<close> on unbalanced square brackets.  Its validation of a
  bracketed host (\<^verbatim>\<open>_check_bracketed_host\<close>, through the \<^verbatim>\<open>ipaddress\<close> module, from 3.11.4
  on) is the parameter \<open>check_bracketed_host\<close>, which gives the message of the
  \<^verbatim>\<open>ValueError\<close> it raises, if any.  \<^verbatim>\<open>_checknetloc\<close> never raises on code points below 256:
  none of them has one of \<^verbatim>\<open>/?#@:\<close> in its NFKC form.
\<close>

definition lstrip_c0 :: "string \<Rightarrow> string" where
  "lstrip_c0 url = dropWhile (\<lambda>c. (of_char c :: nat) \<le> 32) url"

definition unsafe_url_bytes :: "char list" where
  "unsafe_url_bytes = [CHR 0x09, CHR 0x0D, CHR 0x0A]"

definition scheme_chars :: "char list" where
  "scheme_chars = ''abcdefghijklmnopqrstuvwxyzABCDEFGHIJKLMNOPQRSTUVWXYZ0123456789+-.''"

definition is_ascii_alpha :: "char \<Rightarrow> bool" where
  "is_ascii_alpha c = (c \<in> set ''abcdefghijklmnopqrstuvwxyzABCDEFGHIJKLMNOPQRSTUVWXYZ'')"

definition split_scheme :: "string \<Rightarrow> string" where
  "split_scheme url =
     (let i = length (takeWhile (\<lambda>c. c \<noteq> CHR '':'') url) in
      if CHR '':'' \<in> set url \<and> i > 0 \<and> is_ascii_alpha (hd url)
         \<and> list_all (\<lambda>c. c \<in> set scheme_chars) (take i url)
      then drop (i + 1) url
      else url)"

definition splitnetloc :: "string \<Rightarrow> nat \<Rightarrow> string \<times> string" where
  "splitnetloc url start =
     (let domain = takeWhile (\<lambda>c. c \<notin> set ''/?#'') (drop start url)
      in (domain, drop (start + length domain) url))"

definition bracket_checks :: "(string \<Rightarrow> exn option) \<Rightarrow> string \<Rightarrow> exn + string" where
  "bracket_checks check_bracketed_host netloc =
     (if (CHR ''['' \<in> set netloc \<and> CHR '']'' \<notin> set netloc) \<or>
         (CHR '']'' \<in> set netloc \<and> CHR ''['' \<notin> set netloc)
      then Inl ''Invalid IPv6 URL''
      else if CHR ''['' \<in> set netloc \<and> CHR '']'' \<in> set netloc then
        (case check_bracketed_host
                (takeWhile (\<lambda>c. c \<noteq> CHR '']'')
                   (drop 1 (dropWhile (\<lambda>c. c \<noteq> CHR ''['') netloc))) of
           Some e \<Rightarrow> Inl e
         | None \<Rightarrow> Inr netloc)
      else Inr netloc)"

definition urlparse_netloc :: "(string \<Rightarrow> exn option) \<Rightarrow> string \<Rightarrow> exn + string" where
  "urlparse_netloc check_bracketed_host url0 =
     (let url = split_scheme (filter (\<lambda>c. c \<notin> set unsafe_url_bytes) (lstrip_c0 url0)) in
      if take 2 url = ''//'' then bracket_checks check_bracketed_host (fst (splitnetloc url 2))
      else Inr [])"

text \<open>CPython before 3.11.4 does not validate a bracketed host at all.\<close>

definition no_bracket_check :: "string \<Rightarrow> exn option" where
  "no_bracket_check host = None"

section \<open>\<^verbatim>\<open>scrapling-service.py\<close>: the site identity\<close>

text \<open>
  \<^verbatim>\<open>
  def get_domain_hash(url: str) -> str:
      domain = urlparse(url).netloc
      return hashlib.md5(domain.encode()).hexdigest()
  \<close>
  A \<^verbatim>\<open>ValueError\<close> of \<^verbatim>\<open>urlparse\<close> propagates to the caller.
\<close>

definition get_domain_hash :: "(string \<Rightarrow> exn option) \<Rightarrow> string \<Rightarrow> exn + string" where
  "get_domain_hash check_bracketed_host url =
     (case urlparse_netloc check_bracketed_host url of
        Inl e \<Rightarrow> Inl e
      | Inr domain \<Rightarrow> Inr (hexdigest (md5_digest (encode_utf8 domain))))"

text \<open>Shapes of URL text used to state host-only keying.\<close>

definition valid_scheme :: "string \<Rightarrow> bool" where
  "valid_scheme s =
     (s \<noteq> [] \<and> is_ascii_alpha (hd s) \<and> list_all (\<lambda>c. c \<in> set scheme_chars) s)"

definition netloc_text :: "string \<Rightarrow> bool" where
  "netloc_text n = list_all (\<lambda>c. c \<notin> set ''/?#'') n"

definition url_rest :: "string \<Rightarrow> bool" where
  "url_rest r = (case r of [] \<Rightarrow> True | c # _ \<Rightarrow> c \<in> set ''/?#'')"

section \<open>\<^verbatim>\<open>scrapling-service.py\<close>: data model\<close>

text \<open>Values of \<^verbatim>\<open>Dict[str, Any]\<close> dictionaries (metadata, keyword arguments).\<close>

datatype json = JNone | JStr string | JInt int | JBool bool

text \<open>
  \<^verbatim>\<open>ScraplingRequest\<close>.  A Python \<^verbatim>\<open>dict\<close> is an association list in insertion order; its
  keys are distinct.
\<close>

record scrapling_request =
  url :: string
  strategy :: string
  selectors :: "(string \<times> string) list option"
  auto_save :: bool
  javascript :: bool
  timeout :: int
  headers :: "(string \<times> string) list option"

text \<open>
  A value of \<^verbatim>\<open>extracted_data\<close>: the text of the single matched element, or the list of
  the texts of several.  The per-field error value is a text too.
\<close>

datatype field_value = Text string | Texts "string list"

text \<open>\<^verbatim>\<open>ScraplingResponse\<close>.\<close>

record scrapling_response =
  success :: bool
  data :: "(string \<times> field_value) list option"
  content :: "string option"
  metadata :: "(string \<times> json) list"
  adaptive_selectors :: "(string \<times> string) list option"
  cost :: double
  response_time :: double
  error :: "string option"

text \<open>\<^verbatim>\<open>AdaptiveSelector\<close>.\<close>

record adaptive_selector =
  original :: string
  adapted :: "string option"
  confidence :: double
  last_updated :: string

text \<open>
  The process state: the global \<^verbatim>\<open>adaptive_store\<close> and the number of readings of
  \<^verbatim>\<open>datetime.now()\<close> taken so far.
\<close>

record server =
  adaptive_store :: "string \<rightharpoonup> (string \<rightharpoonup> adaptive_selector)"
  clock_reads :: nat

text \<open>
  The state of the loop over \<^verbatim>\<open>request.selectors.items()\<close>: the process state with the
  locals \<^verbatim>\<open>extracted_data\<close> and \<^verbatim>\<open>adaptive_selectors\<close> (here \<open>adaptive_used\<close>).
\<close>

record scrape_state = server +
  extracted_data :: "(string \<times> field_value) list"
  adaptive_used :: "(string \<times> string) list"

text \<open>
  The page object the fetcher returns.  \<open>css page selector (Some b)\<close> is
  \<^verbatim>\<open>page.css(selector, auto_save=b)\<close> and \<open>css page selector None\<close> is \<^verbatim>\<open>page.css(selector)\<close>:
  either the exception raised, or the \<^verbatim>\<open>.text\<close> of the matched elements, in order.
  \<open>status_code\<close> is \<open>None\<close> when the page has no such attribute.
\<close>

record page =
  html :: string
  title :: json
  status_code :: "int option"
  css :: "string \<Rightarrow> bool option \<Rightarrow> exn + string list"

datatype fetcher =
  StealthyFetcher (headless: bool) (disable_images: bool) (extra_headers: "(string \<times> string) list")
  | AsyncFetcher
  | Fetcher

text \<open>
  What the service takes from outside: the fetch capability (constructing the fetcher
  and calling \<^verbatim>\<open>fetch(url, **kwargs)\<close> on it, awaited under the \<^verbatim>\<open>async\<close> strategy, with what
  either raises), the validation of bracketed hosts inside \<^verbatim>\<open>urlparse\<close>, the wall clock
  (\<open>now env n\<close> is the \<open>n\<close>-th reading, in microseconds) and \<^verbatim>\<open>datetime.isoformat\<close>.
\<close>

record env =
  fetch :: "fetcher \<Rightarrow> string \<Rightarrow> (string \<times> json) list \<Rightarrow> raised + page"
  check_bracketed_host :: "string \<Rightarrow> exn option"
  now :: "nat \<Rightarrow> int"
  isoformat :: "int \<Rightarrow> string"

text \<open>\<^verbatim>\<open>timedelta.total_seconds()\<close>: the microseconds divided by \<open>10 ^ 6\<close>, as a float.\<close>

definition total_seconds :: "int \<Rightarrow> double" where
  "total_seconds delta = round_to_double (of_int delta / 1000000)"

section \<open>\<^verbatim>\<open>scrapling-service.py\<close>: the scrape endpoint\<close>

text \<open>Lines 70 to 88: the fetcher, and the arguments of the call of \<^verbatim>\<open>fetch\<close>.\<close>

definition select_fetcher :: "scrapling_request \<Rightarrow> fetcher" where
  "select_fetcher request =
     (if strategy request = ''stealth'' then
        StealthyFetcher True True (case headers request of None \<Rightarrow> [] | Some h \<Rightarrow> h)
      else if strategy request = ''async'' then AsyncFetcher
      else Fetcher)"

definition fetch_kwargs :: "scrapling_request \<Rightarrow> (string \<times> json) list" where
  "fetch_kwargs request =
     (if strategy request = ''async'' then [(''timeout'', JInt (timeout request))]
      else
        (let kwargs = [(''timeout'', JInt (timeout request))] in
         if strategy request = ''stealth'' \<and> javascript request
         then AList.update ''render_js'' (JBool True) kwargs
         else kwargs))"

definition fetch_page :: "env \<Rightarrow> scrapling_request \<Rightarrow> raised + page" where
  "fetch_page env request =
     fetch env (select_fetcher request) (url request) (fetch_kwargs request)"

text \<open>
  Line 96, \<^verbatim>\<open>domain_selectors = adaptive_store.get(domain_hash, {})\<close>: when the store has
  the domain, \<^verbatim>\<open>domain_selectors\<close> is the very dictionary the store holds, and later
  writes to \<^verbatim>\<open>adaptive_store[domain_hash]\<close> are seen through it; otherwise it is a fresh
  empty dictionary.  \<open>aliased\<close> says which, \<open>st\<close> is the store at the time of the read.
\<close>

definition domain_selectors ::
  "bool \<Rightarrow> string \<Rightarrow> (string \<rightharpoonup> (string \<rightharpoonup> adaptive_selector)) \<Rightarrow> (string \<rightharpoonup> adaptive_selector)" where
  "domain_selectors aliased domain_hash st =
     (if aliased then (case st domain_hash of Some m \<Rightarrow> m | None \<Rightarrow> Map.empty)
      else Map.empty)"

text \<open>
  Lines 103 to 108.  \<^verbatim>\<open>domain_selectors.get(key)\<close> is truthy when the key is there; the
  adapted selector is truthy when it is neither \<^verbatim>\<open>None\<close> nor empty.  The key is entered
  into \<^verbatim>\<open>adaptive_selectors\<close> once the second \<^verbatim>\<open>page.css\<close> has returned, whatever it matched.
\<close>

definition try_adaptive ::
  "page \<Rightarrow> (string \<rightharpoonup> adaptive_selector) \<Rightarrow> string \<Rightarrow> string list \<Rightarrow> ('a scrape_state_scheme)
     \<Rightarrow> exn + (string list \<times> 'a scrape_state_scheme)" where
  "try_adaptive page dsel key elements s =
     (if elements = [] then
        (case dsel key of
           None \<Rightarrow> Inr (elements, s)
         | Some entry \<Rightarrow>
             (case adapted entry of
                None \<Rightarrow> Inr (elements, s)
              | Some adaptive_selector \<Rightarrow>
                  if adaptive_selector \<noteq> [] then
                    (case css page adaptive_selector None of
                       Inl e \<Rightarrow> Inl e
                     | Inr elements' \<Rightarrow>
                         Inr (elements',
                              s\<lparr>adaptive_used :=
                                  AList.update key adaptive_selector (adaptive_used s)\<rparr>))
                  else Inr (elements, s)))
      else Inr (elements, s))"

text \<open>Lines 112 to 115.\<close>

definition shape_value :: "string list \<Rightarrow> field_value" where
  "shape_value elements =
     (if length elements = 1 then Text (hd elements) else Texts elements)"

text \<open>Lines 110 to 127.\<close>

definition record_field ::
  "env \<Rightarrow> scrapling_request \<Rightarrow> string \<Rightarrow> string \<Rightarrow> string \<Rightarrow> string list
     \<Rightarrow> ('a scrape_state_scheme) \<Rightarrow> 'a scrape_state_scheme" where
  "record_field env request domain_hash key selector elements s =
     (if elements \<noteq> [] then
        (let s1 = s\<lparr>extracted_data := AList.update key (shape_value elements) (extracted_data s)\<rparr> in
         if auto_save request \<and> key \<in> set (map fst (adaptive_used s1)) then
           (let st = adaptive_store s1;
                st1 = (if st domain_hash = None then st(domain_hash \<mapsto> Map.empty) else st);
                entry = \<lparr>original = selector,
                         adapted = map_of (adaptive_used s1) key,
                         confidence = round_to_double (95 / 100),
                         last_updated = isoformat env (now env (clock_reads s1))\<rparr>
            in s1\<lparr>adaptive_store :=
                     st1(domain_hash \<mapsto>
                          (case st1 domain_hash of None \<Rightarrow> Map.empty | Some m \<Rightarrow> m)(key \<mapsto> entry)),
                   clock_reads := Suc (clock_reads s1)\<rparr>)
         else s1)
      else s)"

text \<open>
  The body of the per-field \<^verbatim>\<open>try\<close> (lines 100 to 127).  Only the two calls of
  \<^verbatim>\<open>page.css\<close> raise, and both come before any assignment of the iteration, so an
  exception leaves the state as the iteration found it.
\<close>

definition field_try ::
  "env \<Rightarrow> scrapling_request \<Rightarrow> page \<Rightarrow> string \<Rightarrow> bool \<Rightarrow> string \<Rightarrow> string
     \<Rightarrow> ('a scrape_state_scheme) \<Rightarrow> exn + 'a scrape_state_scheme" where
  "field_try env request page domain_hash aliased key selector s =
     (case css page selector (Some (auto_save request)) of
        Inl e \<Rightarrow> Inl e
      | Inr elements \<Rightarrow>
          (case try_adaptive page (domain_selectors aliased domain_hash (adaptive_store s))
                  key elements s of
             Inl e \<Rightarrow> Inl e
           | Inr (elements1, s1) \<Rightarrow>
               Inr (record_field env request domain_hash key selector elements1 s1)))"

text \<open>One iteration of the loop of line 98, with the handler of lines 128 and 129.\<close>

definition scrape_field ::
  "env \<Rightarrow> scrapling_request \<Rightarrow> page \<Rightarrow> string \<Rightarrow> bool \<Rightarrow> ('a scrape_state_scheme)
     \<Rightarrow> string \<times> string \<Rightarrow> 'a scrape_state_scheme" where
  "scrape_field env request page domain_hash aliased s item =
     (case item of (key, selector) \<Rightarrow>
        (case field_try env request page domain_hash aliased key selector s of
           Inr s' \<Rightarrow> s'
         | Inl e \<Rightarrow>
             s\<lparr>extracted_data := AList.update key (Text (''Error: '' @ e)) (extracted_data s)\<rparr>))"

text \<open>
  Lines 91 to 129.  \<^verbatim>\<open>if request.selectors:\<close> holds for a dictionary that is neither
  \<^verbatim>\<open>None\<close> nor empty.  \<^verbatim>\<open>get_domain_hash\<close> is outside the per-field \<^verbatim>\<open>try\<close>: its
  \<^verbatim>\<open>ValueError\<close> reaches the handler of the whole request.
\<close>

definition extract_all ::
  "env \<Rightarrow> scrapling_request \<Rightarrow> page \<Rightarrow> server \<Rightarrow> exn + scrape_state" where
  "extract_all env request page srv =
     (let s0 = \<lparr>adaptive_store = adaptive_store srv, clock_reads = clock_reads srv,
                extracted_data = [], adaptive_used = []\<rparr> in
      case selectors request of
        None \<Rightarrow> Inr s0
      | Some sels \<Rightarrow>
          if sels = [] then Inr s0
          else
            (case get_domain_hash (check_bracketed_host env) (url request) of
               Inl e \<Rightarrow> Inl e
             | Inr domain_hash \<Rightarrow>
                 Inr (foldl (scrape_field env request page domain_hash
                              (adaptive_store srv domain_hash \<noteq> None)) s0 sels)))"

text \<open>Lines 134 to 139: the float literals, and \<^verbatim>\<open>+=\<close> on floats.\<close>

definition estimate_cost :: "scrapling_request \<Rightarrow> double" where
  "estimate_cost request =
     (let cost = round_to_double (1 / 10000);
          cost = (if strategy request = ''stealth''
                  then float_add cost (round_to_double (4 / 10000)) else cost);
          cost = (if javascript request
                  then float_add cost (round_to_double (2 / 10000)) else cost)
      in cost)"

definition has_selectors :: "scrapling_request \<Rightarrow> bool" where
  "has_selectors request = (case selectors request of None \<Rightarrow> False | Some sels \<Rightarrow> sels \<noteq> [])"

text \<open>
  The body of the outer \<^verbatim>\<open>try\<close> (lines 69 to 157).  What the fetch raises is passed on as
  it is; the \<^verbatim>\<open>ValueError\<close> of \<^verbatim>\<open>get_domain_hash\<close> is an \<^verbatim>\<open>Exception\<close>.
\<close>

definition scrape_try ::
  "env \<Rightarrow> scrapling_request \<Rightarrow> int \<Rightarrow> server \<Rightarrow> raised + (scrapling_response \<times> server)" where
  "scrape_try env request start_time srv =
     (case fetch_page env request of
        Inl r \<Rightarrow> Inl r
      | Inr page \<Rightarrow>
          (case extract_all env request page srv of
             Inl e \<Rightarrow> Inl (Exception e)
           | Inr s \<Rightarrow>
               (let response_time = total_seconds (now env (clock_reads s) - start_time) in
                Inr (\<lparr>success = True,
                       data = (if extracted_data s \<noteq> [] then Some (extracted_data s) else None),
                       content = (if \<not> has_selectors request then Some (html page) else None),
                       metadata =
                         [(''url'', JStr (url request)),
                          (''strategy'', JStr (strategy request)),
                          (''title'', title page),
                          (''status_code'',
                             JInt (case status_code page of None \<Rightarrow> 200 | Some c \<Rightarrow> c)),
                          (''content_length'', JInt (int (length (html page)))),
                          (''adaptive_enabled'', JBool (auto_save request))],
                       adaptive_selectors =
                         (if adaptive_used s \<noteq> [] then Some (adaptive_used s) else None),
                       cost = estimate_cost request,
                       response_time = response_time,
                       error = None\<rparr>,
                     \<lparr>adaptive_store = adaptive_store s,
                       clock_reads = Suc (clock_reads s)\<rparr>))))"

text \<open>
  \<^verbatim>\<open>scrape\<close>: the reading of \<^verbatim>\<open>start_time\<close>, the \<^verbatim>\<open>try\<close>, and the handler of lines 159 to
  170, which is \<^verbatim>\<open>except Exception\<close>.  Every exception of the body is raised before the
  store is written, so the handler runs in the state the body started in.  What is
  raised and is not an \<^verbatim>\<open>Exception\<close> passes the handler: \<open>Inl name\<close> says that \<^verbatim>\<open>scrape\<close>
  returns nothing and the exception of that class reaches its caller.
\<close>

definition scrape ::
  "env \<Rightarrow> scrapling_request \<Rightarrow> server \<Rightarrow> (string + scrapling_response) \<times> server" where
  "scrape env request srv =
     (let start_time = now env (clock_reads srv);
          srv0 = srv\<lparr>clock_reads := Suc (clock_reads srv)\<rparr> in
      case scrape_try env request start_time srv0 of
        Inr (response, srv1) \<Rightarrow> (Inr response, srv1)
      | Inl (Exception e) \<Rightarrow>
          (let response_time = total_seconds (now env (clock_reads srv0) - start_time) in
           (Inr \<lparr>success = False,
                  data = None,
                  content = None,
                  metadata = [(''url'', JStr (url request)), (''strategy'', JStr (strategy request))],
                  adaptive_selectors = None,
                  cost = 0,
                  response_time = response_time,
                  error = Some e\<rparr>,
            srv0\<lparr>clock_reads := Suc (clock_reads srv0)\<rparr>))
      | Inl (Escaping name) \<Rightarrow> (Inl name, srv0))"

text \<open>The stored mapping of a site and a field, if any.\<close>

definition stored_mapping ::
  "(string \<rightharpoonup> (string \<rightharpoonup> adaptive_selector)) \<Rightarrow> string \<Rightarrow> string \<Rightarrow> adaptive_selector option" where
  "stored_mapping st domain_hash key =
     (case st domain_hash of None \<Rightarrow> None | Some m \<Rightarrow> m key)"

text \<open>
  What a response says of one field: \<^verbatim>\<open>data[key]\<close> and \<^verbatim>\<open>adaptive_selectors[key]\<close>, when
  the dictionary is there and has the key.
\<close>

definition field_of :: "scrapling_response \<Rightarrow> string \<Rightarrow> field_value option" where
  "field_of response key = (case data response of None \<Rightarrow> None | Some d \<Rightarrow> map_of d key)"

definition adapted_with :: "scrapling_response \<Rightarrow> string \<Rightarrow> string option" where
  "adapted_with response key =
     (case adaptive_selectors response of None \<Rightarrow> None | Some a \<Rightarrow> map_of a key)"

section \<open>\<^verbatim>\<open>browser-worker.py\<close>: the crawler\<close>

text \<open>
  The \<^verbatim>\<open>href\<close> of a link as \<^verbatim>\<open>scrape_page\<close> hands it over (\<^verbatim>\<open>a.href\<close> of every element that
  \<^verbatim>\<open>querySelectorAll('a')\<close> finds): a string for an HTML anchor, and for an SVG \<^verbatim>\<open>a\<close> element
  the \<^verbatim>\<open>SVGAnimatedString\<close> object, which arrives as a value that is not a \<^verbatim>\<open>str\<close>.
  \<open>JsOther t\<close> is such a value, \<open>t\<close> the name of its Python type.
\<close>

datatype js_value = JsString string | JsOther string

text \<open>
  An entry of \<^verbatim>\<open>page_data['links']\<close>, and the dictionary \<^verbatim>\<open>scrape_page\<close> returns.  The crawler
  reads \<^verbatim>\<open>links\<close> only; the other entries are carried in \<open>pd_rest\<close>.  \<open>links\<close> is \<open>None\<close> when
  \<^verbatim>\<open>'links'\<close> is not among the requested formats.
\<close>

record link =
  href :: js_value
  link_text :: string

record page_data =
  pd_url :: string
  pd_status :: int
  links :: "link list option"
  pd_rest :: "(string \<times> json) list"

text \<open>
  The \<^verbatim>\<open>options\<close> dictionary: an entry is \<open>None\<close> when the key is absent.  The other
  keys (\<^verbatim>\<open>formats\<close>, \<^verbatim>\<open>waitFor\<close> and so on) only matter to \<^verbatim>\<open>scrape_page\<close>.
\<close>

record crawl_options =
  maxPages :: "int option"
  includePatterns :: "string list option"
  excludePatterns :: "string list option"
  followLinks :: "bool option"
  page_options :: "(string \<times> json) list"

definition max_pages :: "crawl_options \<Rightarrow> int" where
  "max_pages options = (case maxPages options of None \<Rightarrow> 10 | Some n \<Rightarrow> n)"

definition include_patterns :: "crawl_options \<Rightarrow> string list" where
  "include_patterns options = (case includePatterns options of None \<Rightarrow> [] | Some ps \<Rightarrow> ps)"

definition exclude_patterns :: "crawl_options \<Rightarrow> string list" where
  "exclude_patterns options = (case excludePatterns options of None \<Rightarrow> [] | Some ps \<Rightarrow> ps)"

text \<open>\<^verbatim>\<open>pattern in url\<close>: the pattern occurs in the URL as a contiguous substring.\<close>

fun contains :: "string \<Rightarrow> string \<Rightarrow> bool" where
  "contains pattern [] = (pattern = [])"
| "contains pattern (c # cs) = (prefix pattern (c # cs) \<or> contains pattern cs)"

text \<open>An entry of \<^verbatim>\<open>results\<close>: status \<^verbatim>\<open>'success'\<close> with the page data, or \<^verbatim>\<open>'failed'\<close> with the message.\<close>

datatype page_result =
  PageSuccess (result_url: string) page_data
  | PageFailed (result_url: string) exn

definition is_success :: "page_result \<Rightarrow> bool" where
  "is_success r = (case r of PageSuccess _ _ \<Rightarrow> True | PageFailed _ _ \<Rightarrow> False)"

text \<open>
  The variables of the loop.  \<open>fetched\<close> is not a variable of the source: it logs the
  URLs passed to \<^verbatim>\<open>scrape_page.remote\<close>, in order, so that what is fetched can be stated.
\<close>

record crawl_state =
  visited :: "string set"
  to_visit :: "string list"
  results :: "page_result list"
  fetched :: "string list"

text \<open>The message of the \<^verbatim>\<open>AttributeError\<close> raised by \<^verbatim>\<open>x.startswith\<close> when \<^verbatim>\<open>x\<close> is not a \<^verbatim>\<open>str\<close>.\<close>

definition no_startswith :: "string \<Rightarrow> exn" where
  "no_startswith t =
     [CHR 0x27] @ t @ [CHR 0x27] @ '' object has no attribute '' @ [CHR 0x27]
       @ ''startswith'' @ [CHR 0x27]"

text \<open>
  The \<^verbatim>\<open>for\<close> loop of lines 157 to 159 over the links, with the queue \<^verbatim>\<open>to_visit\<close>: the
  exception raised, if any, and the queue as the loop leaves it.  \<^verbatim>\<open>visited\<close> does not
  change during the loop.  \<^verbatim>\<open>link['href'].startswith\<close> raises on an \<^verbatim>\<open>href\<close> that is not a
  string; the links before it have been appended by then.
\<close>

fun follow_links :: "string \<Rightarrow> string set \<Rightarrow> link list \<Rightarrow> string list \<Rightarrow> exn option \<times> string list" where
  "follow_links start_url seen [] queue = (None, queue)"
| "follow_links start_url seen (l # ls) queue =
     (case href l of
        JsString h \<Rightarrow>
          follow_links start_url seen ls
            (if prefix start_url h \<and> h \<notin> seen then queue @ [h] else queue)
      | JsOther t \<Rightarrow> (Some (no_startswith t), queue))"

text \<open>
  Lines 156 to 159.  \<^verbatim>\<open>options.get('followLinks')\<close> and \<^verbatim>\<open>page_data.get('links')\<close> are tested
  for truth: the flag is there and true, the list is there and not empty.
\<close>

definition add_links ::
  "string \<Rightarrow> crawl_options \<Rightarrow> page_data \<Rightarrow> crawl_state \<Rightarrow> exn option \<times> crawl_state" where
  "add_links start_url options page_data s =
     (if followLinks options = Some True \<and> links page_data \<noteq> None \<and> links page_data \<noteq> Some [] then
        (case follow_links start_url (visited s)
                (case links page_data of None \<Rightarrow> [] | Some ls \<Rightarrow> ls) (to_visit s) of
           (raised, queue) \<Rightarrow> (raised, s\<lparr>to_visit := queue\<rparr>))
      else (None, s))"

definition excluded :: "crawl_options \<Rightarrow> string \<Rightarrow> bool" where
  "excluded options page_url =
     (exclude_patterns options \<noteq> [] \<and> list_ex (\<lambda>pattern. contains pattern page_url) (exclude_patterns options))"

definition not_included :: "crawl_options \<Rightarrow> string \<Rightarrow> bool" where
  "not_included options page_url =
     (include_patterns options \<noteq> [] \<and> \<not> list_ex (\<lambda>pattern. contains pattern page_url) (include_patterns options))"

text \<open>
  One iteration of the \<^verbatim>\<open>while\<close> loop (lines 133 to 166), entered with \<^verbatim>\<open>to_visit\<close> not
  empty; \<open>page_url\<close> is the \<^verbatim>\<open>url\<close> of the source.  \<open>remote page_url options\<close> is
  \<^verbatim>\<open>await scrape_page.remote(url, options)\<close>: the page data, or the exception raised.  The
  \<^verbatim>\<open>try\<close> of line 146 holds the fetch, the \<^verbatim>\<open>results.append\<close> of the success and the link
  loop, so an exception of the link loop reaches the handler of line 161 after the
  success has been recorded, and the handler records a failure for the same URL.
\<close>

definition crawl_step ::
  "(string \<Rightarrow> crawl_options \<Rightarrow> exn + page_data) \<Rightarrow> string \<Rightarrow> crawl_options \<Rightarrow> crawl_state \<Rightarrow> crawl_state" where
  "crawl_step remote start_url options s =
     (case to_visit s of
        [] \<Rightarrow> s
      | page_url # rest \<Rightarrow>
          (let s = s\<lparr>to_visit := rest\<rparr> in
           if page_url \<in> visited s then s
           else
             (let s = s\<lparr>visited := insert page_url (visited s)\<rparr> in
              if excluded options page_url then s
              else if not_included options page_url then s
              else
                (let s = s\<lparr>fetched := fetched s @ [page_url]\<rparr> in
                 case remote page_url options of
                   Inr page_data \<Rightarrow>
                     (case add_links start_url options page_data
                             (s\<lparr>results := results s @ [PageSuccess page_url page_data]\<rparr>) of
                        (None, s) \<Rightarrow> s
                      | (Some e, s) \<Rightarrow> s\<lparr>results := results s @ [PageFailed page_url e]\<rparr>)
                 | Inl e \<Rightarrow> s\<lparr>results := results s @ [PageFailed page_url e]\<rparr>))))"

text \<open>Line 132: \<^verbatim>\<open>while to_visit and len(results) < max_pages\<close>.\<close>

definition crawl_continues :: "crawl_options \<Rightarrow> crawl_state \<Rightarrow> bool" where
  "crawl_continues options s =
     (to_visit s \<noteq> [] \<and> int (length (results s)) < max_pages options)"

function crawl_loop ::
  "(string \<Rightarrow> crawl_options \<Rightarrow> exn + page_data) \<Rightarrow> string \<Rightarrow> crawl_options \<Rightarrow> crawl_state \<Rightarrow> crawl_state" where
  "crawl_loop remote start_url options s =
     (if crawl_continues options s
      then crawl_loop remote start_url options (crawl_step remote start_url options s)
      else s)"
  by pat_completeness auto
termination
proof (relation "measures
    [\<lambda>(remote, start_url, options, s). nat (max_pages options - int (length (results s))),
     \<lambda>(remote, start_url, options, s). length (to_visit s)]")
  show "wf (measures
    [\<lambda>(remote :: string \<Rightarrow> crawl_options \<Rightarrow> exn + page_data, start_url :: string,
         options :: crawl_options, s :: crawl_state).
        nat (max_pages options - int (length (results s))),
     \<lambda>(remote, start_url, options, s). length (to_visit s)])"
    by (rule wf_measures)
next
  fix remote :: "string \<Rightarrow> crawl_options \<Rightarrow> exn + page_data"
    and start_url :: string and options :: crawl_options and s :: crawl_state
  assume "crawl_continues options s"
  then show "((remote, start_url, options, crawl_step remote start_url options s),
              (remote, start_url, options, s))
        \<in> measures
            [\<lambda>(remote, start_url, options, s). nat (max_pages options - int (length (results s))),
             \<lambda>(remote, start_url, options, s). length (to_visit s)]"
    by (cases "to_visit s")
       (auto simp: crawl_continues_def crawl_step_def add_links_def Let_def
             split: sum.splits prod.splits option.splits)
qed

text \<open>The state the loop ends in, from the initial values of lines 128 to 130.\<close>

definition crawl_run ::
  "(string \<Rightarrow> crawl_options \<Rightarrow> exn + page_data) \<Rightarrow> string \<Rightarrow> crawl_options \<Rightarrow> crawl_state" where
  "crawl_run remote start_url options =
     crawl_loop remote start_url options
       \<lparr>visited = {}, to_visit = [start_url], results = [], fetched = []\<rparr>"

record crawl_stats =
  totalPages :: nat
  successfulPages :: nat
  failedPages :: nat

record crawl_report =
  stats :: crawl_stats
  pages :: "page_result list"

definition crawl_site ::
  "(string \<Rightarrow> crawl_options \<Rightarrow> exn + page_data) \<Rightarrow> string \<Rightarrow> crawl_options \<Rightarrow> crawl_report" where
  "crawl_site remote start_url options =
     (let results = results (crawl_run remote start_url options) in
      \<lparr>stats = \<lparr>totalPages = length results,
                 successfulPages = length (filter is_success results),
                 failedPages = length (filter (\<lambda>r. \<not> is_success r) results)\<rparr>,
       pages = results\<rparr>)"

section \<open>A sample site\<close>

text \<open>
  A page, an environment, a store and requests to run the definitions on.  The page has
  one \<^verbatim>\<open>h2\<close> and two \<^verbatim>\<open>li\<close> elements, and its selector engine rejects \<^verbatim>\<open>[\<close>.  The store
  holds replacement selectors for two fields of \<^verbatim>\<open>example.com\<close>: \<^verbatim>\<open>h2\<close> for \<^verbatim>\<open>title\<close>, which
  matches, and \<^verbatim>\<open>.cost\<close> for \<^verbatim>\<open>price\<close>, which does not.  Fetching \<^verbatim>\<open>silent.example\<close> raises an
  exception that carries no message, as \<^verbatim>\<open>TimeoutError()\<close> does, and the fetch of
  \<^verbatim>\<open>cancelled.example\<close> is cancelled while it is awaited.
\<close>

definition sample_page :: page where
  "sample_page =
     \<lparr>html = ''<html><h2>Hello</h2><li>a</li><li>b</li></html>'',
      title = JStr ''Example'',
      status_code = Some 200,
      css = (\<lambda>selector auto_save.
               if selector = ''h2'' then Inr [''Hello'']
               else if selector = ''li'' then Inr [''a'', ''b'']
               else if selector = ''['' then Inl ''Invalid selector''
               else Inr [])\<rparr>"

definition sample_env :: env where
  "sample_env =
     \<lparr>fetch = (\<lambda>fetcher u kwargs.
                 if u = ''https://example.com/page'' then Inr sample_page
                 else if u = ''https://silent.example/'' then Inl (Exception [])
                 else if u = ''https://cancelled.example/'' then Inl (Escaping ''CancelledError'')
                 else Inl (Exception ''Timeout 30000ms exceeded'')),
      check_bracketed_host = no_bracket_check,
      now = (\<lambda>n. int n),
      isoformat = (\<lambda>t. ''T+'' @ replicate (nat t) (CHR ''s''))\<rparr>"

definition sample_hash :: string where
  "sample_hash = ''5ababd603b22780302dd8d83498e5172''"

definition sample_server :: server where
  "sample_server =
     \<lparr>adaptive_store =
        [sample_hash \<mapsto>
           [''title'' \<mapsto> \<lparr>original = ''h1'', adapted = Some ''h2'',
                            confidence = round_to_double (95 / 100), last_updated = ''T+''\<rparr>,
            ''price'' \<mapsto> \<lparr>original = ''.price'', adapted = Some ''.cost'',
                            confidence = round_to_double (95 / 100), last_updated = ''T+''\<rparr>]],
      clock_reads = 0\<rparr>"

definition sample_selectors :: "(string \<times> string) list" where
  "sample_selectors =
     [(''title'', ''h1''), (''heading'', ''h2''), (''price'', ''.price''),
      (''broken'', ''[''), (''items'', ''li''), (''missing'', ''.none'')]"

definition sample_request :: scrapling_request where
  "sample_request =
     \<lparr>url = ''https://example.com/page'', strategy = ''adaptive'',
      selectors = Some sample_selectors, auto_save = True, javascript = False,
      timeout = 30000, headers = None\<rparr>"

text \<open>
  A small site for the crawler: the home page links to \<^verbatim>\<open>/a\<close> twice, to \<^verbatim>\<open>/admin\<close>, to another
  site and to \<^verbatim>\<open>/b\<close>; \<^verbatim>\<open>/a\<close> links back home and to \<^verbatim>\<open>/b\<close>; fetching \<^verbatim>\<open>/b\<close> fails.  The options
  exclude \<^verbatim>\<open>/admin\<close>, which the include pattern matches as well.
\<close>

definition sample_site :: "string \<Rightarrow> crawl_options \<Rightarrow> exn + page_data" where
  "sample_site page_url options =
     (if page_url = ''https://example.com/'' then
        Inr \<lparr>pd_url = page_url, pd_status = 200,
             links = Some [\<lparr>href = JsString ''https://example.com/a'', link_text = ''A''\<rparr>,
                           \<lparr>href = JsString ''https://example.com/admin'', link_text = ''Admin''\<rparr>,
                           \<lparr>href = JsString ''https://example.com/a'', link_text = ''A again''\<rparr>,
                           \<lparr>href = JsString ''https://other.org/'', link_text = ''Elsewhere''\<rparr>,
                           \<lparr>href = JsString ''https://example.com/b'', link_text = ''B''\<rparr>],
             pd_rest = []\<rparr>
      else if page_url = ''https://example.com/a'' then
        Inr \<lparr>pd_url = page_url, pd_status = 200,
             links = Some [\<lparr>href = JsString ''https://example.com/'', link_text = ''Home''\<rparr>,
                           \<lparr>href = JsString ''https://example.com/b'', link_text = ''B''\<rparr>],
             pd_rest = []\<rparr>
      else if page_url = ''https://example.com/b'' then Inl ''net::ERR_CONNECTION_RESET''
      else Inr \<lparr>pd_url = page_url, pd_status = 200, links = None, pd_rest = []\<rparr>)"

definition sample_options :: crawl_options where
  "sample_options =
     \<lparr>maxPages = Some 3, includePatterns = Some [''example.com''],
      excludePatterns = Some [''/admin''], followLinks = Some True, page_options = []\<rparr>"

text \<open>
  A site whose page has a link inside an SVG image: its \<^verbatim>\<open>href\<close> arrives as a dictionary.
  The options ask for one page, with links followed.
\<close>

definition svg_site :: "string \<Rightarrow> crawl_options \<Rightarrow> exn + page_data" where
  "svg_site page_url options =
     Inr \<lparr>pd_url = page_url, pd_status = 200,
          links = Some [\<lparr>href = JsOther ''dict'', link_text = ''logo''\<rparr>],
          pd_rest = []\<rparr>"

definition svg_options :: crawl_options where
  "svg_options =
     \<lparr>maxPages = Some 1, includePatterns = None, excludePatterns = None,
      followLinks = Some True, page_options = []\<rparr>"

section \<open>Auxiliary notions\<close>

text \<open>Two loop states that agree on everything but the extracted value of one key.\<close>

definition agree_except :: "string \<Rightarrow> 'a scrape_state_scheme \<Rightarrow> 'a scrape_state_scheme \<Rightarrow> bool" where
  "agree_except key s t =
     (adaptive_store s = adaptive_store t \<and> clock_reads s = clock_reads t
      \<and> adaptive_used s = adaptive_used t
      \<and> (\<forall>k. k \<noteq> key \<longrightarrow> map_of (extracted_data s) k = map_of (extracted_data t) k))"

section \<open>Site identity: what the hash is keyed on\<close>

lemma split_scheme_url:
  assumes "valid_scheme s"
  shows "split_scheme (s @ ''://'' @ r) = ''//'' @ r"
proof -
  have "CHR '':'' \<notin> set scheme_chars"
    by (simp add: scheme_chars_def)
  then have nc: "CHR '':'' \<notin> set s"
    using assms unfolding valid_scheme_def list_all_iff by blast
  then have tw: "takeWhile (\<lambda>c. c \<noteq> CHR '':'') (s @ ''://'' @ r) = s"
    by (simp add: takeWhile_append)
  show ?thesis
    unfolding split_scheme_def tw Let_def using assms
    by (simp add: valid_scheme_def)
qed

lemma scheme_chars_safe: "c \<in> set scheme_chars \<Longrightarrow> c \<notin> set unsafe_url_bytes"
  by (auto simp: scheme_chars_def unsafe_url_bytes_def)

lemma alpha_not_c0: "is_ascii_alpha c \<Longrightarrow> \<not> (of_char c :: nat) \<le> 32"
  by (auto simp: is_ascii_alpha_def)

lemma clean_url:
  assumes "valid_scheme s"
  shows "filter (\<lambda>c. c \<notin> set unsafe_url_bytes) (lstrip_c0 (s @ ''://'' @ r))
         = s @ ''://'' @ filter (\<lambda>c. c \<notin> set unsafe_url_bytes) r"
proof -
  obtain c cs where s: "s = c # cs" and a: "is_ascii_alpha c"
    using assms by (cases s) (auto simp: valid_scheme_def)
  have "lstrip_c0 (s @ ''://'' @ r) = s @ ''://'' @ r"
    using alpha_not_c0[OF a] by (simp add: lstrip_c0_def s)
  moreover have "filter (\<lambda>c. c \<notin> set unsafe_url_bytes) s = s"
    using assms scheme_chars_safe by (simp add: valid_scheme_def list_all_iff filter_id_conv)
  ultimately show ?thesis
    by (simp add: unsafe_url_bytes_def)
qed

lemma netloc_after_clean:
  assumes "netloc_text n" "url_rest r"
  shows "takeWhile (\<lambda>c. c \<notin> set ''/?#'')
           (filter (\<lambda>c. c \<notin> set unsafe_url_bytes) (n @ r))
         = filter (\<lambda>c. c \<notin> set unsafe_url_bytes) n"
proof -
  let ?f = "filter (\<lambda>c. c \<notin> set unsafe_url_bytes)"
  have 1: "\<forall>c\<in>set (?f n). c \<notin> set ''/?#''"
    using assms(1) by (simp add: netloc_text_def list_all_iff)
  have 2: "takeWhile (\<lambda>c. c \<notin> set ''/?#'') (?f r) = []"
    using assms(2) by (cases r) (auto simp: url_rest_def unsafe_url_bytes_def)
  have "takeWhile (\<lambda>c. c \<notin> set ''/?#'') (?f n @ ?f r)
        = ?f n @ takeWhile (\<lambda>c. c \<notin> set ''/?#'') (?f r)"
    by (rule takeWhile_append2) (use 1 in blast)
  with 2 show ?thesis
    by (simp only: filter_append append_Nil2)
qed

lemma urlparse_netloc_url:
  assumes "valid_scheme s" "netloc_text n" "url_rest r"
  shows "urlparse_netloc cbh (s @ ''://'' @ n @ r)
         = bracket_checks cbh (filter (\<lambda>c. c \<notin> set unsafe_url_bytes) n)"
proof -
  let ?f = "filter (\<lambda>c. c \<notin> set unsafe_url_bytes)"
  have url: "split_scheme (?f (lstrip_c0 (s @ ''://'' @ n @ r))) = ''//'' @ ?f (n @ r)"
    by (simp only: clean_url[OF assms(1)] split_scheme_url[OF assms(1)])
  have "fst (splitnetloc (''//'' @ ?f (n @ r)) 2) = ?f n"
    using netloc_after_clean[OF assms(2,3)] by (simp add: splitnetloc_def)
  then show ?thesis
    unfolding urlparse_netloc_def url Let_def by simp
qed

text \<open>
  Claim C7, as amended.  Two URLs \<open>scheme://netloc rest\<close> with the same text between
  \<^verbatim>\<open>//\<close> and the first \<^verbatim>\<open>/\<close>, \<^verbatim>\<open>?\<close> or \<^verbatim>\<open>#\<close> have the same identity, whatever their schemes
  and whatever follows the network location.  The identity is keyed on that text as it
  is written, port and user information included; its letter case is not normalised.
\<close>

theorem get_domain_hash_scheme_path:
  assumes "valid_scheme s1" "valid_scheme s2" "netloc_text n" "url_rest r1" "url_rest r2"
  shows "get_domain_hash cbh (s1 @ ''://'' @ n @ r1) = get_domain_hash cbh (s2 @ ''://'' @ n @ r2)"
  unfolding get_domain_hash_def
  by (simp only: urlparse_netloc_url[OF assms(1,3,4)] urlparse_netloc_url[OF assms(2,3,5)])

theorem get_domain_hash_scheme_path_witness:
  "valid_scheme ''http'' \<and> valid_scheme ''https'' \<and> netloc_text ''example.com''
   \<and> url_rest ''/a'' \<and> url_rest ''/b?x=1#top''
   \<and> get_domain_hash no_bracket_check ''http://example.com/a''
       = get_domain_hash no_bracket_check ''https://example.com/b?x=1#top''"
  using get_domain_hash_scheme_path[of "''http''" "''https''" "''example.com''" "''/a''"
          "''/b?x=1#top''" no_bracket_check]
  by (simp add: valid_scheme_def netloc_text_def url_rest_def is_ascii_alpha_def scheme_chars_def)

text \<open>
  Claim C7 as stated fails: two URLs whose hosts differ in letter case only have
  different identities (the digests \<^verbatim>\<open>e80608b6...\<close> of \<^verbatim>\<open>Example.com\<close> and \<^verbatim>\<open>5ababd60...\<close> of
  \<^verbatim>\<open>example.com\<close>).
\<close>

theorem get_domain_hash_case_counterexample:
  "get_domain_hash no_bracket_check ''http://Example.com/''
    \<noteq> get_domain_hash no_bracket_check ''http://example.com/''"
  by code_simp

section \<open>The scrape endpoint: one field among the others\<close>

text \<open>
  An iteration of the loop for another key leaves what the state holds for this key:
  its extracted value, its entry of \<^verbatim>\<open>adaptive_selectors\<close> and its stored mapping.
\<close>

lemma try_adaptive_frame:
  assumes "try_adaptive page dsel k elements s = Inr (elements', s')" "k \<noteq> key"
  shows "map_of (adaptive_used s') key = map_of (adaptive_used s) key"
    and "extracted_data s' = extracted_data s"
    and "adaptive_store s' = adaptive_store s"
    and "clock_reads s' = clock_reads s"
  using assms
  by (auto simp: try_adaptive_def update_conv' split: if_splits option.splits sum.splits)

lemma record_field_frame:
  assumes "k \<noteq> key"
  shows "map_of (extracted_data (record_field env request dh k selector elements s)) key
           = map_of (extracted_data s) key"
    and "adaptive_used (record_field env request dh k selector elements s) = adaptive_used s"
    and "stored_mapping (adaptive_store (record_field env request dh k selector elements s)) dh' key
           = stored_mapping (adaptive_store s) dh' key"
  using assms
  by (auto simp: record_field_def update_conv' stored_mapping_def Let_def split: option.splits)

lemma scrape_field_frame:
  assumes "k \<noteq> key"
  shows "map_of (extracted_data (scrape_field env request page dh aliased s (k, selector))) key
           = map_of (extracted_data s) key"
    and "map_of (adaptive_used (scrape_field env request page dh aliased s (k, selector))) key
           = map_of (adaptive_used s) key"
    and "stored_mapping (adaptive_store (scrape_field env request page dh aliased s (k, selector))) dh' key
           = stored_mapping (adaptive_store s) dh' key"
proof -
  let ?s' = "scrape_field env request page dh aliased s (k, selector)"
  have "map_of (extracted_data ?s') key = map_of (extracted_data s) key
      \<and> map_of (adaptive_used ?s') key = map_of (adaptive_used s) key
      \<and> stored_mapping (adaptive_store ?s') dh' key = stored_mapping (adaptive_store s) dh' key"
  proof (cases "field_try env request page dh aliased k selector s")
    case (Inl e)
    then show ?thesis
      using assms by (simp add: scrape_field_def update_conv')
  next
    case (Inr s')
    then obtain elements elements1 s1 where
      t: "try_adaptive page (domain_selectors aliased dh (adaptive_store s)) k elements s
            = Inr (elements1, s1)"
      and s': "s' = record_field env request dh k selector elements1 s1"
      by (auto simp: field_try_def split: sum.splits)
    show ?thesis
      using Inr try_adaptive_frame[OF t assms]
      by (simp add: scrape_field_def s' record_field_frame[OF assms])
  qed
  then show "map_of (extracted_data ?s') key = map_of (extracted_data s) key"
    and "map_of (adaptive_used ?s') key = map_of (adaptive_used s) key"
    and "stored_mapping (adaptive_store ?s') dh' key = stored_mapping (adaptive_store s) dh' key"
    by simp_all
qed

lemma loop_frame:
  assumes "key \<notin> fst ` set items"
  shows "map_of (extracted_data (foldl (scrape_field env request page dh aliased) s items)) key
           = map_of (extracted_data s) key
       \<and> map_of (adaptive_used (foldl (scrape_field env request page dh aliased) s items)) key
           = map_of (adaptive_used s) key
       \<and> stored_mapping (adaptive_store (foldl (scrape_field env request page dh aliased) s items)) dh' key
           = stored_mapping (adaptive_store s) dh' key"
  using assms
proof (induction items arbitrary: s)
  case Nil
  then show ?case by simp
next
  case (Cons item items)
  obtain k selector where item: "item = (k, selector)" by (cases item)
  with Cons.prems have "k \<noteq> key" "key \<notin> fst ` set items" by auto
  then show ?case
    using Cons.IH[of "scrape_field env request page dh aliased s (k, selector)"]
    by (simp add: item scrape_field_frame)
qed


lemma loop_clock_mono:
  "clock_reads s \<le> clock_reads (foldl (scrape_field env request page dh aliased) s items)"
proof (induction items arbitrary: s)
  case Nil
  then show ?case by simp
next
  case (Cons item items)
  have "clock_reads s \<le> clock_reads (scrape_field env request page dh aliased s item)"
    by (cases item)
       (auto simp: scrape_field_def field_try_def try_adaptive_def record_field_def Let_def
             split: sum.splits option.splits if_splits)
  with Cons.IH[of "scrape_field env request page dh aliased s item"] show ?case
    by simp
qed

lemma dsel_initial:
  assumes "stored_mapping (adaptive_store s) dh key = stored_mapping st0 dh key"
  shows "domain_selectors (st0 dh \<noteq> None) dh (adaptive_store s) key = stored_mapping st0 dh key"
  using assms by (auto simp: domain_selectors_def stored_mapping_def split: option.splits)

lemma field_raises:
  assumes "css page selector (Some (auto_save request)) = Inl e"
  shows "scrape_field env request page dh aliased s (key, selector)
         = s\<lparr>extracted_data := AList.update key (Text (''Error: '' @ e)) (extracted_data s)\<rparr>"
  using assms by (simp add: scrape_field_def field_try_def)

lemma field_matches:
  assumes "css page selector (Some (auto_save request)) = Inr els" "els \<noteq> []"
    and "map_of (adaptive_used s) key = None"
  shows "scrape_field env request page dh aliased s (key, selector)
         = s\<lparr>extracted_data := AList.update key (shape_value els) (extracted_data s)\<rparr>"
proof -
  have "key \<notin> set (map fst (adaptive_used s))"
    using assms(3) by (simp add: map_of_eq_None_iff)
  then show ?thesis
    using assms(1,2)
    by (simp add: scrape_field_def field_try_def try_adaptive_def record_field_def)
qed

lemma field_absent:
  assumes "css page selector (Some (auto_save request)) = Inr []"
    and "case domain_selectors aliased dh (adaptive_store s) key of
           None \<Rightarrow> True
         | Some entry \<Rightarrow> (case adapted entry of None \<Rightarrow> True | Some a \<Rightarrow> a = [])"
  shows "scrape_field env request page dh aliased s (key, selector) = s"
  using assms
  by (auto simp: scrape_field_def field_try_def try_adaptive_def record_field_def
           split: option.splits)

lemma field_adapted_raises:
  assumes "css page selector (Some (auto_save request)) = Inr []"
    and "domain_selectors aliased dh (adaptive_store s) key = Some entry"
    and "adapted entry = Some a" "a \<noteq> []"
    and "css page a None = Inl e"
  shows "scrape_field env request page dh aliased s (key, selector)
         = s\<lparr>extracted_data := AList.update key (Text (''Error: '' @ e)) (extracted_data s)\<rparr>"
  using assms by (simp add: scrape_field_def field_try_def try_adaptive_def)

lemma field_adapted_nomatch:
  assumes "css page selector (Some (auto_save request)) = Inr []"
    and "domain_selectors aliased dh (adaptive_store s) key = Some entry"
    and "adapted entry = Some a" "a \<noteq> []"
    and "css page a None = Inr []"
  shows "scrape_field env request page dh aliased s (key, selector)
         = s\<lparr>adaptive_used := AList.update key a (adaptive_used s)\<rparr>"
  using assms by (simp add: scrape_field_def field_try_def try_adaptive_def record_field_def)

lemma field_adapted:
  assumes "css page selector (Some (auto_save request)) = Inr []"
    and "domain_selectors aliased dh (adaptive_store s) key = Some entry"
    and "adapted entry = Some a" "a \<noteq> []"
    and "css page a None = Inr els" "els \<noteq> []"
  shows "map_of (extracted_data (scrape_field env request page dh aliased s (key, selector))) key
           = Some (shape_value els)"
    and "map_of (adaptive_used (scrape_field env request page dh aliased s (key, selector))) key
           = Some a"
    and "auto_save request \<Longrightarrow>
         stored_mapping (adaptive_store (scrape_field env request page dh aliased s (key, selector))) dh key
           = Some \<lparr>original = selector, adapted = Some a, confidence = round_to_double (95 / 100),
                   last_updated = isoformat env (now env (clock_reads s))\<rparr>"
    and "clock_reads (scrape_field env request page dh aliased s (key, selector))
           = (if auto_save request then Suc (clock_reads s) else clock_reads s)"
    and "\<not> auto_save request \<Longrightarrow>
         adaptive_store (scrape_field env request page dh aliased s (key, selector)) = adaptive_store s"
  using assms
  by (simp_all add: scrape_field_def field_try_def try_adaptive_def record_field_def
        update_conv' dom_update stored_mapping_def Let_def)

lemma scrape_selectors:
  assumes "fetch_page env request = Inr page"
    and "selectors request = Some sels" "sels \<noteq> []"
    and "get_domain_hash (check_bracketed_host env) (url request) = Inr dh"
    and "scrape env request srv = (Inr response, srv')"
    and "fin = foldl (scrape_field env request page dh (adaptive_store srv dh \<noteq> None))
                 \<lparr>adaptive_store = adaptive_store srv, clock_reads = Suc (clock_reads srv),
                  extracted_data = [], adaptive_used = []\<rparr> sels"
  shows "success response" "error response = None"
    and "data response = (if extracted_data fin \<noteq> [] then Some (extracted_data fin) else None)"
    and "adaptive_selectors response = (if adaptive_used fin \<noteq> [] then Some (adaptive_used fin) else None)"
    and "content response = None"
    and "adaptive_store srv' = adaptive_store fin"
    and "clock_reads srv' = Suc (clock_reads fin)"
  using assms
  by (auto simp: scrape_def scrape_try_def extract_all_def has_selectors_def Let_def)

lemma scrape_selectors_field:
  assumes "fetch_page env request = Inr page"
    and "selectors request = Some sels" "sels \<noteq> []"
    and "get_domain_hash (check_bracketed_host env) (url request) = Inr dh"
    and "scrape env request srv = (Inr response, srv')"
    and "fin = foldl (scrape_field env request page dh (adaptive_store srv dh \<noteq> None))
                 \<lparr>adaptive_store = adaptive_store srv, clock_reads = Suc (clock_reads srv),
                  extracted_data = [], adaptive_used = []\<rparr> sels"
  shows "field_of response key = map_of (extracted_data fin) key"
    and "adapted_with response key = map_of (adaptive_used fin) key"
  using scrape_selectors(3,4)[OF assms]
  by (auto simp: field_of_def adapted_with_def)

lemma split_at_key:
  assumes "distinct (map fst sels)" "(key, selector) \<in> set sels"
  obtains pre post where "sels = pre @ (key, selector) # post"
    "key \<notin> fst ` set pre" "key \<notin> fst ` set post"
proof -
  from assms(2) obtain pre post where s: "sels = pre @ (key, selector) # post"
    by (meson split_list)
  with assms(1) have "key \<notin> fst ` set pre" "key \<notin> fst ` set post"
    by auto
  with s that show thesis by blast
qed


lemma field_context:
  assumes fetch: "fetch_page env request = Inr page"
    and sels: "selectors request = Some sels" "distinct (map fst sels)" "(key, selector) \<in> set sels"
    and dh: "get_domain_hash (check_bracketed_host env) (url request) = Inr dh"
    and res: "scrape env request srv = (Inr response, srv')"
  obtains s1 :: scrape_state where
    "map_of (extracted_data s1) key = None"
    "map_of (adaptive_used s1) key = None"
    "stored_mapping (adaptive_store s1) dh key = stored_mapping (adaptive_store srv) dh key"
    "domain_selectors (adaptive_store srv dh \<noteq> None) dh (adaptive_store s1) key
       = stored_mapping (adaptive_store srv) dh key"
    "clock_reads srv < clock_reads s1"
    "field_of response key
       = map_of (extracted_data
           (scrape_field env request page dh (adaptive_store srv dh \<noteq> None) s1 (key, selector))) key"
    "adapted_with response key
       = map_of (adaptive_used
           (scrape_field env request page dh (adaptive_store srv dh \<noteq> None) s1 (key, selector))) key"
    "stored_mapping (adaptive_store srv') dh key
       = stored_mapping (adaptive_store
           (scrape_field env request page dh (adaptive_store srv dh \<noteq> None) s1 (key, selector))) dh key"
    "clock_reads (scrape_field env request page dh (adaptive_store srv dh \<noteq> None) s1 (key, selector))
       < clock_reads srv'"
    "success response" "error response = None"
proof -
  let ?step = "scrape_field env request page dh (adaptive_store srv dh \<noteq> None)"
  let ?s0 = "\<lparr>adaptive_store = adaptive_store srv, clock_reads = Suc (clock_reads srv),
              extracted_data = [], adaptive_used = []\<rparr>"
  obtain pre post where split: "sels = pre @ (key, selector) # post"
    and pre: "key \<notin> fst ` set pre" and post: "key \<notin> fst ` set post"
    using split_at_key[OF sels(2,3)] by blast
  define s1 where "s1 = foldl ?step ?s0 pre"
  define fin where "fin = foldl ?step ?s0 sels"
  have ne: "sels \<noteq> []" using split by simp
  have fin: "fin = foldl ?step (?step s1 (key, selector)) post"
    by (simp add: fin_def s1_def split)
  note fr1 = loop_frame[OF pre, of env request page dh "adaptive_store srv dh \<noteq> None" ?s0 dh]
  note fr2 = loop_frame[OF post, of env request page dh "adaptive_store srv dh \<noteq> None"
               "?step s1 (key, selector)" dh]
  have a: "map_of (extracted_data s1) key = None" "map_of (adaptive_used s1) key = None"
    and b: "stored_mapping (adaptive_store s1) dh key = stored_mapping (adaptive_store srv) dh key"
    using fr1 by (simp_all add: s1_def)
  have c: "domain_selectors (adaptive_store srv dh \<noteq> None) dh (adaptive_store s1) key
             = stored_mapping (adaptive_store srv) dh key"
    by (rule dsel_initial[OF b])
  have d: "clock_reads srv < clock_reads s1"
    using loop_clock_mono[of ?s0 env request page dh "adaptive_store srv dh \<noteq> None" pre]
    by (simp add: s1_def)
  have e: "field_of response key = map_of (extracted_data (?step s1 (key, selector))) key"
    "adapted_with response key = map_of (adaptive_used (?step s1 (key, selector))) key"
    using scrape_selectors_field[OF fetch sels(1) ne dh res fin_def, of key] fr2
    by (simp_all add: fin)
  have f: "stored_mapping (adaptive_store srv') dh key
             = stored_mapping (adaptive_store (?step s1 (key, selector))) dh key"
    using scrape_selectors(6)[OF fetch sels(1) ne dh res fin_def] fr2
    by (simp add: fin)
  have g: "clock_reads (?step s1 (key, selector)) < clock_reads srv'"
    using scrape_selectors(7)[OF fetch sels(1) ne dh res fin_def]
      loop_clock_mono[of "?step s1 (key, selector)" env request page dh "adaptive_store srv dh \<noteq> None" post]
    by (simp add: fin)
  have h: "success response" "error response = None"
    using scrape_selectors(1,2)[OF fetch sels(1) ne dh res fin_def] by simp_all
  show thesis
    using that[OF a b c d e f g h] .
qed

text \<open>
  Iterations for other keys take states that agree except at one key to states that
  agree except at that key: no iteration reads \<^verbatim>\<open>extracted_data\<close>.
\<close>

lemma try_adaptive_agree:
  assumes "agree_except key s t"
  shows "case (try_adaptive page dsel k els s, try_adaptive page dsel k els t) of
           (Inl e, Inl e') \<Rightarrow> e = e'
         | (Inr (a, s'), Inr (b, t')) \<Rightarrow> a = b \<and> agree_except key s' t'
         | _ \<Rightarrow> False"
  using assms
  by (auto simp: try_adaptive_def agree_except_def split: option.splits sum.splits)

lemma record_field_agree:
  assumes "agree_except key s t" "k \<noteq> key"
  shows "agree_except key (record_field env request dh k selector els s)
           (record_field env request dh k selector els t)"
  using assms
  by (auto simp: record_field_def agree_except_def update_conv' Let_def)

lemma scrape_field_agree:
  assumes "agree_except key s t" "k \<noteq> key"
  shows "agree_except key (scrape_field env request page dh aliased s (k, selector))
           (scrape_field env request page dh aliased t (k, selector))"
proof (cases "css page selector (Some (auto_save request))")
  case (Inl e)
  then show ?thesis
    using assms by (simp add: scrape_field_def field_try_def agree_except_def update_conv')
next
  case (Inr els)
  have st: "adaptive_store s = adaptive_store t"
    using assms(1) by (simp add: agree_except_def)
  let ?d = "domain_selectors aliased dh (adaptive_store t)"
  show ?thesis
  proof (cases "try_adaptive page ?d k els s")
    case a: (Inl e)
    then have "try_adaptive page ?d k els t = Inl e"
      using try_adaptive_agree[OF assms(1), of page ?d k els] by (auto split: sum.splits)
    with a Inr st show ?thesis
      using assms by (simp add: scrape_field_def field_try_def agree_except_def update_conv')
  next
    case a: (Inr p)
    obtain els1 s1 where p: "p = (els1, s1)" by (cases p)
    obtain t1 where b: "try_adaptive page ?d k els t = Inr (els1, t1)"
      and ag: "agree_except key s1 t1"
      using try_adaptive_agree[OF assms(1), of page ?d k els] a p
      by (auto split: sum.splits)
    show ?thesis
      using a b p Inr st record_field_agree[OF ag assms(2)]
      by (simp add: scrape_field_def field_try_def)
  qed
qed

lemma loop_agree:
  assumes "agree_except key s t" "key \<notin> fst ` set items"
  shows "agree_except key (foldl (scrape_field env request page dh aliased) s items)
           (foldl (scrape_field env request page dh aliased) t items)"
  using assms
proof (induction items arbitrary: s t)
  case Nil
  then show ?case by simp
next
  case (Cons item items)
  obtain k selector where item: "item = (k, selector)" by (cases item)
  with Cons.prems have "k \<noteq> key" "key \<notin> fst ` set items" by auto
  then show ?case
    using Cons.IH[OF scrape_field_agree[OF Cons.prems(1) \<open>k \<noteq> key\<close>]]
    by (simp add: item)
qed

lemma record_field_selectors_irrelevant:
  "record_field env (request\<lparr>selectors := x\<rparr>) dh k selector els s
     = record_field env request dh k selector els s"
  by (simp add: record_field_def)

lemma scrape_field_selectors_irrelevant:
  "scrape_field env (request\<lparr>selectors := x\<rparr>) page dh aliased s item
     = scrape_field env request page dh aliased s item"
  by (cases item)
     (auto simp: scrape_field_def field_try_def record_field_selectors_irrelevant
           split: sum.splits)

lemma scrape_selectors_gen:
  assumes "fetch_page env request = Inr page"
    and "selectors request = Some sels"
    and "get_domain_hash (check_bracketed_host env) (url request) = Inr dh"
    and "scrape env request srv = (Inr response, srv')"
    and "fin = foldl (scrape_field env request page dh (adaptive_store srv dh \<noteq> None))
                 \<lparr>adaptive_store = adaptive_store srv, clock_reads = Suc (clock_reads srv),
                  extracted_data = [], adaptive_used = []\<rparr> sels"
  shows "field_of response k = map_of (extracted_data fin) k"
    and "adapted_with response k = map_of (adaptive_used fin) k"
    and "srv' = \<lparr>adaptive_store = adaptive_store fin, clock_reads = Suc (clock_reads fin)\<rparr>"
    and "success response" "error response = None"
  using assms
  by (cases "sels = []";
      auto simp: scrape_def scrape_try_def extract_all_def field_of_def adapted_with_def Let_def)+


lemma fetch_page_selectors_irrelevant:
  "fetch_page env (request\<lparr>selectors := x\<rparr>) = fetch_page env request"
  by (simp add: fetch_page_def select_fetcher_def fetch_kwargs_def)

lemma sample_hash_eq:
  "get_domain_hash no_bracket_check ''https://example.com/page'' = Inr sample_hash"
  unfolding sample_hash_def by code_simp

lemma sample_fetch: "fetch_page sample_env sample_request = Inr sample_page"
  by (simp add: fetch_page_def sample_env_def sample_request_def)

lemma sample_sels: "selectors sample_request = Some sample_selectors"
  by (simp add: sample_request_def)

lemma sample_distinct: "distinct (map fst sample_selectors)"
  by (simp add: sample_selectors_def)

lemma sample_dh:
  "get_domain_hash (check_bracketed_host sample_env) (url sample_request) = Inr sample_hash"
  by (simp add: sample_env_def sample_request_def sample_hash_eq)

lemma scrape_returns:
  assumes "fetch_page env request = Inr page"
  shows "\<exists>response srv'. scrape env request srv = (Inr response, srv')"
  using assms
  by (auto simp: scrape_def scrape_try_def Let_def split: sum.splits raised.splits)









section \<open>The scrape endpoint: the claims\<close>

lemma adapted_selector_used_aux:
  assumes "fetch_page env request = Inr page"
    and "selectors request = Some sels" "distinct (map fst sels)" "(key, selector) \<in> set sels"
    and "get_domain_hash (check_bracketed_host env) (url request) = Inr dh"
    and "scrape env request srv = (Inr response, srv')"
    and miss: "css page selector (Some (auto_save request)) = Inr []"
    and stored: "stored_mapping (adaptive_store srv) dh key = Some entry"
      "adapted entry = Some a" "a \<noteq> []"
    and hit: "css page a None = Inr els" "els \<noteq> []"
  shows "success response
       \<and> field_of response key = Some (shape_value els)
       \<and> adapted_with response key = Some a
       \<and> (if auto_save request
          then \<exists>k. clock_reads srv < k \<and> k < clock_reads srv' \<and>
                 stored_mapping (adaptive_store srv') dh key
                   = Some \<lparr>original = selector, adapted = Some a, confidence = round_to_double (95 / 100),
                           last_updated = isoformat env (now env k)\<rparr>
          else stored_mapping (adaptive_store srv') dh key = Some entry)"
proof -
  obtain s1 :: scrape_state where
    ds: "domain_selectors (adaptive_store srv dh \<noteq> None) dh (adaptive_store s1) key
           = stored_mapping (adaptive_store srv) dh key"
    and st1: "stored_mapping (adaptive_store s1) dh key = stored_mapping (adaptive_store srv) dh key"
    and clk1: "clock_reads srv < clock_reads s1"
    and f: "field_of response key
       = map_of (extracted_data
           (scrape_field env request page dh (adaptive_store srv dh \<noteq> None) s1 (key, selector))) key"
    and a: "adapted_with response key
       = map_of (adaptive_used
           (scrape_field env request page dh (adaptive_store srv dh \<noteq> None) s1 (key, selector))) key"
    and st: "stored_mapping (adaptive_store srv') dh key
       = stored_mapping (adaptive_store
           (scrape_field env request page dh (adaptive_store srv dh \<noteq> None) s1 (key, selector))) dh key"
    and clk2: "clock_reads (scrape_field env request page dh (adaptive_store srv dh \<noteq> None) s1 (key, selector))
       < clock_reads srv'"
    and ok: "success response"
    using field_context[OF assms(1-6)] by metis
  have ds': "domain_selectors (adaptive_store srv dh \<noteq> None) dh (adaptive_store s1) key = Some entry"
    using ds stored(1) by simp
  note fa = field_adapted[OF miss ds' stored(2,3) hit, where env = env]
  have "field_of response key = Some (shape_value els)" "adapted_with response key = Some a"
    using f a fa(1,2) by simp_all
  moreover have "\<exists>k. clock_reads srv < k \<and> k < clock_reads srv' \<and>
                 stored_mapping (adaptive_store srv') dh key
                   = Some \<lparr>original = selector, adapted = Some a, confidence = round_to_double (95 / 100),
                           last_updated = isoformat env (now env k)\<rparr>"
    if "auto_save request"
  proof (intro exI conjI)
    show "clock_reads srv < clock_reads s1" by (rule clk1)
    show "clock_reads s1 < clock_reads srv'"
      using clk2 fa(4) that by simp
    show "stored_mapping (adaptive_store srv') dh key
            = Some \<lparr>original = selector, adapted = Some a, confidence = round_to_double (95 / 100),
                    last_updated = isoformat env (now env (clock_reads s1))\<rparr>"
      using st fa(3)[OF that] by simp
  qed
  moreover have "stored_mapping (adaptive_store srv') dh key = Some entry"
    if "\<not> auto_save request"
    using st fa(5)[OF that] st1 stored(1) by simp
  ultimately show ?thesis
    using ok by simp
qed

text \<open>
  Claim C1.  When the requested selector of a field matches nothing and the store holds,
  for the site of the URL and this field, a non-empty adapted selector that matches at
  least one element, the response carries the adapted selector's matches for the field
  and lists the field in \<^verbatim>\<open>adaptive_selectors\<close> with the adapted selector.  With
  \<^verbatim>\<open>auto_save\<close> the stored mapping is overwritten: \<^verbatim>\<open>original\<close> is the requested selector,
  \<^verbatim>\<open>adapted\<close> the selector used, \<^verbatim>\<open>confidence\<close> the constant 0.95 and \<^verbatim>\<open>last_updated\<close> a
  reading of the clock taken during this request.  Without it the mapping stays.
\<close>

theorem scrape_adapted_selector_used:
  assumes "fetch_page env request = Inr page"
    and "selectors request = Some sels" "distinct (map fst sels)" "(key, selector) \<in> set sels"
    and "get_domain_hash (check_bracketed_host env) (url request) = Inr dh"
    and miss: "css page selector (Some (auto_save request)) = Inr []"
    and stored: "stored_mapping (adaptive_store srv) dh key = Some entry"
      "adapted entry = Some a" "a \<noteq> []"
    and hit: "css page a None = Inr els" "els \<noteq> []"
  shows "\<exists>response srv'.
           scrape env request srv = (Inr response, srv')
           \<and> success response
           \<and> field_of response key = Some (shape_value els)
           \<and> adapted_with response key = Some a
           \<and> (if auto_save request
              then \<exists>k. clock_reads srv < k \<and> k < clock_reads srv' \<and>
                     stored_mapping (adaptive_store srv') dh key
                       = Some \<lparr>original = selector, adapted = Some a,
                               confidence = round_to_double (95 / 100),
                               last_updated = isoformat env (now env k)\<rparr>
              else stored_mapping (adaptive_store srv') dh key = Some entry)"
proof -
  obtain response srv' where res: "scrape env request srv = (Inr response, srv')"
    using scrape_returns[OF assms(1)] by blast
  note th = adapted_selector_used_aux[OF assms(1-5) res miss stored hit]
  show ?thesis
    by (rule exI[of _ response], rule exI[of _ srv'], rule conjI[OF res th])
qed

theorem scrape_adapted_selector_used_witness:
  "\<exists>response srv'.
     scrape sample_env sample_request sample_server = (Inr response, srv')
     \<and> success response
     \<and> field_of response ''title'' = Some (Text ''Hello'')
     \<and> adapted_with response ''title'' = Some ''h2''
     \<and> (\<exists>k. 0 < k \<and> k < clock_reads srv' \<and>
            stored_mapping (adaptive_store srv') sample_hash ''title''
              = Some \<lparr>original = ''h1'', adapted = Some ''h2'',
                      confidence = round_to_double (95 / 100),
                      last_updated = isoformat sample_env (now sample_env k)\<rparr>)"
proof -
  have mem: "(''title'', ''h1'') \<in> set sample_selectors"
    by (simp add: sample_selectors_def)
  have miss: "css sample_page ''h1'' (Some (auto_save sample_request)) = Inr []"
    by (simp add: sample_page_def)
  have stored: "stored_mapping (adaptive_store sample_server) sample_hash ''title''
      = Some \<lparr>original = ''h1'', adapted = Some ''h2'', confidence = round_to_double (95 / 100),
              last_updated = ''T+''\<rparr>"
    by (simp add: stored_mapping_def sample_server_def)
  have ad: "adapted \<lparr>original = ''h1'', adapted = Some ''h2'',
                     confidence = round_to_double (95 / 100), last_updated = ''T+''\<rparr> = Some ''h2''"
    by simp
  have hit: "css sample_page ''h2'' None = Inr [''Hello'']"
    by (simp add: sample_page_def)
  show ?thesis
    using scrape_adapted_selector_used[OF sample_fetch sample_sels sample_distinct mem sample_dh
        miss stored ad _ hit]
    by (simp add: shape_value_def sample_request_def sample_server_def)
qed

text \<open>
  Claim C2.  When the requested selector of a field matches at least one element, the
  scrape returns a response that carries those matches for the field and does not list
  the field in \<^verbatim>\<open>adaptive_selectors\<close>, and the stored mapping of the field is left as it was.
  This holds for every content of the store, so the outcome for the field does not depend
  on it.
\<close>

theorem scrape_matching_selector_as_is:
  assumes "fetch_page env request = Inr page"
    and "selectors request = Some sels" "distinct (map fst sels)" "(key, selector) \<in> set sels"
    and "get_domain_hash (check_bracketed_host env) (url request) = Inr dh"
    and hit: "css page selector (Some (auto_save request)) = Inr els" "els \<noteq> []"
  shows "\<exists>response srv'.
           scrape env request srv = (Inr response, srv')
           \<and> field_of response key = Some (shape_value els)
           \<and> adapted_with response key = None
           \<and> stored_mapping (adaptive_store srv') dh key
               = stored_mapping (adaptive_store srv) dh key"
proof -
  obtain response srv' where res: "scrape env request srv = (Inr response, srv')"
    using scrape_returns[OF assms(1)] by blast
  obtain s1 :: scrape_state where
    u: "map_of (adaptive_used s1) key = None"
    and st1: "stored_mapping (adaptive_store s1) dh key = stored_mapping (adaptive_store srv) dh key"
    and f: "field_of response key
       = map_of (extracted_data
           (scrape_field env request page dh (adaptive_store srv dh \<noteq> None) s1 (key, selector))) key"
    and a: "adapted_with response key
       = map_of (adaptive_used
           (scrape_field env request page dh (adaptive_store srv dh \<noteq> None) s1 (key, selector))) key"
    and st: "stored_mapping (adaptive_store srv') dh key
       = stored_mapping (adaptive_store
           (scrape_field env request page dh (adaptive_store srv dh \<noteq> None) s1 (key, selector))) dh key"
    using field_context[OF assms(1-5) res] by metis
  have eq: "scrape_field env request page dh (adaptive_store srv dh \<noteq> None) s1 (key, selector)
         = s1\<lparr>extracted_data := AList.update key (shape_value els) (extracted_data s1)\<rparr>"
    by (rule field_matches[OF hit u])
  have "field_of response key = Some (shape_value els)
      \<and> adapted_with response key = None
      \<and> stored_mapping (adaptive_store srv') dh key = stored_mapping (adaptive_store srv) dh key"
    using f[unfolded eq] a[unfolded eq] st[unfolded eq] u st1
    by (simp add: update_conv')
  with res show ?thesis by blast
qed

theorem scrape_matching_selector_as_is_witness:
  "\<exists>response srv'.
     scrape sample_env sample_request sample_server = (Inr response, srv')
     \<and> field_of response ''heading'' = Some (Text ''Hello'')
     \<and> adapted_with response ''heading'' = None
     \<and> stored_mapping (adaptive_store srv') sample_hash ''heading'' = None"
proof -
  have mem: "(''heading'', ''h2'') \<in> set sample_selectors"
    by (simp add: sample_selectors_def)
  have hit: "css sample_page ''h2'' (Some (auto_save sample_request)) = Inr [''Hello'']"
    by (simp add: sample_page_def)
  show ?thesis
    using scrape_matching_selector_as_is[OF sample_fetch sample_sels sample_distinct mem sample_dh
        hit, of sample_server]
    by (simp add: shape_value_def stored_mapping_def sample_server_def)
qed

text \<open>The two sentences of the amended claim C3, for use below.\<close>

lemma adaptation_reported_aux:
  assumes "fetch_page env request = Inr page"
    and "selectors request = Some sels" "distinct (map fst sels)" "(key, selector) \<in> set sels"
    and "get_domain_hash (check_bracketed_host env) (url request) = Inr dh"
    and "scrape env request srv = (Inr response, srv')"
  shows "adapted_with response key =
          (if css page selector (Some (auto_save request)) = Inr [] then
             (case stored_mapping (adaptive_store srv) dh key of
                None \<Rightarrow> None
              | Some entry \<Rightarrow>
                  (case adapted entry of
                     None \<Rightarrow> None
                   | Some a \<Rightarrow> if a \<noteq> [] \<and> isl (css page a None) = False then Some a else None))
           else None)
       \<and> (css page selector (Some (auto_save request)) = Inr [] \<and>
          (case stored_mapping (adaptive_store srv) dh key of
             None \<Rightarrow> True
           | Some entry \<Rightarrow>
               (case adapted entry of
                  None \<Rightarrow> True
                | Some a \<Rightarrow> a = [] \<or> css page a None = Inr []))
          \<longrightarrow> success response \<and> error response = None \<and> field_of response key = None
              \<and> stored_mapping (adaptive_store srv') dh key
                  = stored_mapping (adaptive_store srv) dh key)"
proof -
  let ?step = "scrape_field env request page dh (adaptive_store srv dh \<noteq> None)"
  obtain s1 :: scrape_state where
    d: "map_of (extracted_data s1) key = None"
    and u: "map_of (adaptive_used s1) key = None"
    and st1: "stored_mapping (adaptive_store s1) dh key = stored_mapping (adaptive_store srv) dh key"
    and ds: "domain_selectors (adaptive_store srv dh \<noteq> None) dh (adaptive_store s1) key
           = stored_mapping (adaptive_store srv) dh key"
    and f: "field_of response key = map_of (extracted_data (?step s1 (key, selector))) key"
    and a: "adapted_with response key = map_of (adaptive_used (?step s1 (key, selector))) key"
    and st: "stored_mapping (adaptive_store srv') dh key
       = stored_mapping (adaptive_store (?step s1 (key, selector))) dh key"
    and ok: "success response" "error response = None"
    using field_context[OF assms] by metis
  let ?c = "css page selector (Some (auto_save request))"
  show ?thesis
  proof (cases ?c)
    case (Inl e)
    have eq: "?step s1 (key, selector)
         = s1\<lparr>extracted_data := AList.update key (Text (''Error: '' @ e)) (extracted_data s1)\<rparr>"
      by (rule field_raises[OF Inl])
    show ?thesis
      using a[unfolded eq] u Inl by simp
  next
    case (Inr els0)
    show ?thesis
    proof (cases "els0 = []")
      case False
      have eq: "?step s1 (key, selector)
         = s1\<lparr>extracted_data := AList.update key (shape_value els0) (extracted_data s1)\<rparr>"
        by (rule field_matches[OF Inr False u])
      show ?thesis
        using a[unfolded eq] u Inr False by simp
    next
      case True
      with Inr have c0: "?c = Inr []" by simp
      show ?thesis
      proof (cases "\<exists>entry a. stored_mapping (adaptive_store srv) dh key = Some entry
                      \<and> adapted entry = Some a \<and> a \<noteq> []")
        case False
        then have none: "case stored_mapping (adaptive_store srv) dh key of None \<Rightarrow> True
           | Some entry \<Rightarrow> (case adapted entry of None \<Rightarrow> True | Some a \<Rightarrow> a = [])"
          by (auto split: option.splits)
        have eq: "?step s1 (key, selector) = s1"
          by (rule field_absent) (use c0 none ds in simp_all)
        show ?thesis
          using none a[unfolded eq] u f[unfolded eq] d st[unfolded eq] st1 ok c0
          by (auto split: option.splits)
      next
        case True
        then obtain entry a where applied:
          "stored_mapping (adaptive_store srv) dh key = Some entry" "adapted entry = Some a" "a \<noteq> []"
          by blast
        have ds': "domain_selectors (adaptive_store srv dh \<noteq> None) dh (adaptive_store s1) key = Some entry"
          using ds applied(1) by simp
        show ?thesis
        proof (cases "css page a None")
          case (Inl e)
          have eq: "?step s1 (key, selector)
             = s1\<lparr>extracted_data := AList.update key (Text (''Error: '' @ e)) (extracted_data s1)\<rparr>"
            by (rule field_adapted_raises[OF c0 ds' applied(2,3) Inl])
          show ?thesis
            using a[unfolded eq] u applied Inl c0 by simp
        next
          case (Inr els)
          show ?thesis
          proof (cases "els = []")
            case True
            have eq: "?step s1 (key, selector)
                = s1\<lparr>adaptive_used := AList.update key a (adaptive_used s1)\<rparr>"
              using field_adapted_nomatch[OF c0 ds' applied(2,3)] Inr True by simp
            show ?thesis
              using a[unfolded eq] f[unfolded eq] d st[unfolded eq] st1 ok applied Inr True c0
              by (simp add: update_conv')
          next
            case False
            have "map_of (adaptive_used (?step s1 (key, selector))) key = Some a"
              by (rule field_adapted(2)[OF c0 ds' applied(2,3) Inr False])
            with a have "adapted_with response key = Some a"
              by (simp only:)
            then show ?thesis
              using applied Inr False c0 by simp
          qed
        qed
      qed
    qed
  qed
qed

text \<open>
  Claim C3, as amended.  A field is listed in \<^verbatim>\<open>adaptive_selectors\<close> exactly when its
  requested selector matched nothing and a stored, non-empty adapted selector was applied
  without raising, whether or not that selector matched anything.  When the requested
  selector matches nothing and the stored adapted selector is missing, empty or matches
  nothing either, the request succeeds without error, the field is absent from \<^verbatim>\<open>data\<close>
  and its stored mapping is left as it was.
\<close>

theorem scrape_adaptation_reported:
  assumes "fetch_page env request = Inr page"
    and "selectors request = Some sels" "distinct (map fst sels)" "(key, selector) \<in> set sels"
    and "get_domain_hash (check_bracketed_host env) (url request) = Inr dh"
  shows "\<exists>response srv'.
           scrape env request srv = (Inr response, srv')
           \<and> adapted_with response key =
               (if css page selector (Some (auto_save request)) = Inr [] then
                  (case stored_mapping (adaptive_store srv) dh key of
                     None \<Rightarrow> None
                   | Some entry \<Rightarrow>
                       (case adapted entry of
                          None \<Rightarrow> None
                        | Some a \<Rightarrow>
                            if a \<noteq> [] \<and> isl (css page a None) = False then Some a else None))
                else None)
           \<and> (css page selector (Some (auto_save request)) = Inr [] \<and>
               (case stored_mapping (adaptive_store srv) dh key of
                  None \<Rightarrow> True
                | Some entry \<Rightarrow>
                    (case adapted entry of
                       None \<Rightarrow> True
                     | Some a \<Rightarrow> a = [] \<or> css page a None = Inr []))
               \<longrightarrow> success response \<and> error response = None \<and> field_of response key = None
                   \<and> stored_mapping (adaptive_store srv') dh key
                       = stored_mapping (adaptive_store srv) dh key)"
proof -
  obtain response srv' where res: "scrape env request srv = (Inr response, srv')"
    using scrape_returns[OF assms(1)] by blast
  note th = adaptation_reported_aux[OF assms res]
  show ?thesis
    by (rule exI[of _ response], rule exI[of _ srv'], rule conjI[OF res th])
qed

theorem scrape_adaptation_reported_witness:
  "\<exists>response srv'.
     scrape sample_env sample_request sample_server = (Inr response, srv')
     \<and> adapted_with response ''missing'' = None
     \<and> success response
     \<and> error response = None
     \<and> field_of response ''missing'' = None
     \<and> stored_mapping (adaptive_store srv') sample_hash ''missing'' = None"
proof -
  have mem: "(''missing'', ''.none'') \<in> set sample_selectors"
    by (simp add: sample_selectors_def)
  have miss: "css sample_page ''.none'' (Some (auto_save sample_request)) = Inr []"
    by (simp add: sample_page_def)
  have none: "stored_mapping (adaptive_store sample_server) sample_hash ''missing'' = None"
    by (simp add: stored_mapping_def sample_server_def)
  show ?thesis
    using scrape_adaptation_reported[OF sample_fetch sample_sels sample_distinct mem sample_dh,
        of sample_server]
    by (simp add: miss none)
qed

text \<open>
  Claim C3 as stated fails: the stored adapted selector \<^verbatim>\<open>.cost\<close> of the field \<^verbatim>\<open>price\<close>
  matches nothing on the page, and the response still lists the field in
  \<^verbatim>\<open>adaptive_selectors\<close>.
\<close>

theorem scrape_adaptation_reported_counterexample:
  "css sample_page ''.price'' (Some True) = Inr []
   \<and> css sample_page ''.cost'' None = Inr []
   \<and> (\<exists>response srv'.
         scrape sample_env sample_request sample_server = (Inr response, srv')
         \<and> adapted_with response ''price'' = Some ''.cost'')"
proof -
  obtain response srv' where
    res: "scrape sample_env sample_request sample_server = (Inr response, srv')"
    using scrape_returns[OF sample_fetch] by blast
  have mem: "(''price'', ''.price'') \<in> set sample_selectors"
    by (simp add: sample_selectors_def)
  have "adapted_with response ''price'' = Some ''.cost''"
    using adaptation_reported_aux[OF sample_fetch sample_sels sample_distinct mem sample_dh res]
    by (simp add: sample_page_def stored_mapping_def sample_server_def sample_request_def)
  moreover have "css sample_page ''.price'' (Some True) = Inr []"
    "css sample_page ''.cost'' None = Inr []"
    by (simp_all add: sample_page_def)
  ultimately show ?thesis
    using res by blast
qed

text \<open>
  Claim C4, as amended.  A successful response has no error and never both \<^verbatim>\<open>data\<close> and
  \<^verbatim>\<open>content\<close>; \<^verbatim>\<open>content\<close> is there exactly when the request has no selectors, and \<^verbatim>\<open>data\<close>,
  when there, is not empty.  So both are absent when selectors were requested and no
  field produced a value.  A failed response has the error and neither \<^verbatim>\<open>data\<close> nor
  \<^verbatim>\<open>content\<close>.  This is said of every response that \<^verbatim>\<open>scrape\<close> returns, and it returns one
  unless the fetch raised what is not an \<^verbatim>\<open>Exception\<close>.
\<close>

theorem scrape_result_shape:
  "case scrape env request srv of
     (Inr response, srv') \<Rightarrow>
       (if success response
        then error response = None
             \<and> (data response = None \<or> content response = None)
             \<and> (content response \<noteq> None) = (\<not> has_selectors request)
             \<and> data response \<noteq> Some []
        else error response \<noteq> None \<and> data response = None \<and> content response = None)
   | (Inl name, srv') \<Rightarrow> fetch_page env request = Inl (Escaping name)"
  by (auto simp: scrape_def scrape_try_def extract_all_def has_selectors_def Let_def
           split: sum.splits option.splits if_splits raised.splits)

theorem scrape_result_shape_witness:
  "\<exists>response srv'.
     scrape sample_env sample_request sample_server = (Inr response, srv')
     \<and> success response
     \<and> has_selectors sample_request
     \<and> error response = None
     \<and> content response = None
     \<and> data response \<noteq> Some []"
proof -
  obtain response srv' where
    res: "scrape sample_env sample_request sample_server = (Inr response, srv')"
    using scrape_returns[OF sample_fetch] by blast
  have ne: "sample_selectors \<noteq> []"
    by (simp add: sample_selectors_def)
  have "success response"
    by (rule scrape_selectors(1)[OF sample_fetch sample_sels ne sample_dh res refl])
  moreover have "has_selectors sample_request"
    by (simp add: has_selectors_def sample_request_def sample_selectors_def)
  ultimately have "success response \<and> has_selectors sample_request \<and> error response = None
      \<and> content response = None \<and> data response \<noteq> Some []"
    using scrape_result_shape[of sample_env sample_request sample_server] res by simp
  with res show ?thesis by blast
qed

text \<open>
  Claim C4 as stated fails: for a request whose only selector matches nothing, the
  response is a success with neither \<^verbatim>\<open>data\<close> nor \<^verbatim>\<open>content\<close>.
\<close>

theorem scrape_result_shape_counterexample:
  "\<exists>response srv'.
     scrape sample_env (sample_request\<lparr>selectors := Some [(''missing'', ''.none'')]\<rparr>) sample_server
       = (Inr response, srv')
     \<and> success response \<and> data response = None \<and> content response = None"
proof -
  let ?request = "sample_request\<lparr>selectors := Some [(''missing'', ''.none'')]\<rparr>"
  let ?s0 = "\<lparr>adaptive_store = adaptive_store sample_server,
              clock_reads = Suc (clock_reads sample_server),
              extracted_data = [], adaptive_used = []\<rparr>"
  have fetch: "fetch_page sample_env ?request = Inr sample_page"
    by (simp add: fetch_page_selectors_irrelevant sample_fetch)
  have sels: "selectors ?request = Some [(''missing'', ''.none'')]"
    by simp
  have dh: "get_domain_hash (check_bracketed_host sample_env) (url ?request) = Inr sample_hash"
    using sample_dh by simp
  obtain response srv' where res: "scrape sample_env ?request sample_server = (Inr response, srv')"
    using scrape_returns[OF fetch] by blast
  have step: "scrape_field sample_env ?request sample_page sample_hash
                (adaptive_store sample_server sample_hash \<noteq> None) ?s0 (''missing'', ''.none'') = ?s0"
    by (rule field_absent)
       (simp_all add: sample_page_def domain_selectors_def sample_server_def)
  have fin: "?s0 = foldl (scrape_field sample_env ?request sample_page sample_hash
                    (adaptive_store sample_server sample_hash \<noteq> None)) ?s0 [(''missing'', ''.none'')]"
    using step by simp
  have "success response \<and> data response = None \<and> content response = None"
    using scrape_selectors(1,3,5)[OF fetch sels _ dh res fin] by simp
  with res show ?thesis by blast
qed

text \<open>
  Claim C5, as amended.  When the fetch capability raises an instance of \<^verbatim>\<open>Exception\<close>,
  \<^verbatim>\<open>scrape\<close> returns the failure record: \<^verbatim>\<open>success\<close> false, \<^verbatim>\<open>data\<close>, \<^verbatim>\<open>content\<close> and
  \<^verbatim>\<open>adaptive_selectors\<close> absent, \<^verbatim>\<open>cost\<close> 0 and \<^verbatim>\<open>error\<close> the message of the exception, which is
  empty when the exception carries no message; the store is not written.  When the
  fetch returns a page, \<^verbatim>\<open>scrape\<close> returns a response, a success without error or a failure
  with one.  When the fetch raises what is not an \<^verbatim>\<open>Exception\<close>, as the cancellation of the
  awaited fetch does, \<^verbatim>\<open>scrape\<close> returns nothing: the exception passes the handler.
\<close>

theorem scrape_fetch_raises:
  "case fetch_page env request of
     Inl (Exception e) \<Rightarrow>
       scrape env request srv
         = (Inr \<lparr>success = False, data = None, content = None,
                  metadata = [(''url'', JStr (url request)), (''strategy'', JStr (strategy request))],
                  adaptive_selectors = None, cost = 0,
                  response_time =
                    total_seconds (now env (Suc (clock_reads srv)) - now env (clock_reads srv)),
                  error = Some e\<rparr>,
            srv\<lparr>clock_reads := Suc (Suc (clock_reads srv))\<rparr>)
   | Inl (Escaping name) \<Rightarrow>
       scrape env request srv = (Inl name, srv\<lparr>clock_reads := Suc (clock_reads srv)\<rparr>)
   | Inr page \<Rightarrow>
       (\<exists>response srv'. scrape env request srv = (Inr response, srv')
          \<and> success response = (error response = None))"
  by (auto simp: scrape_def scrape_try_def Let_def split: sum.splits raised.splits)

theorem scrape_fetch_raises_witness:
  "scrape sample_env (sample_request\<lparr>url := ''https://slow.example/''\<rparr>) sample_server
     = (Inr \<lparr>success = False, data = None, content = None,
              metadata = [(''url'', JStr ''https://slow.example/''), (''strategy'', JStr ''adaptive'')],
              adaptive_selectors = None, cost = 0,
              response_time = total_seconds 1,
              error = Some ''Timeout 30000ms exceeded''\<rparr>,
        sample_server\<lparr>clock_reads := 2\<rparr>)"
proof -
  have "fetch_page sample_env (sample_request\<lparr>url := ''https://slow.example/''\<rparr>)
          = Inl (Exception ''Timeout 30000ms exceeded'')"
    by (simp add: fetch_page_def sample_env_def sample_request_def)
  with scrape_fetch_raises[of sample_env "sample_request\<lparr>url := ''https://slow.example/''\<rparr>"
         sample_server]
  show ?thesis
    by (simp add: sample_env_def sample_request_def sample_server_def)
qed

text \<open>
  Claim C5 as stated fails twice.  Fetching \<^verbatim>\<open>silent.example\<close> raises an exception without a
  message, and the response carries the empty string as its error.  The fetch of
  \<^verbatim>\<open>cancelled.example\<close> under the \<^verbatim>\<open>async\<close> strategy is cancelled, and \<^verbatim>\<open>scrape\<close> lets the
  \<^verbatim>\<open>CancelledError\<close> through.
\<close>

theorem scrape_fetch_raises_counterexample:
  "fetch_page sample_env (sample_request\<lparr>url := ''https://silent.example/''\<rparr>) = Inl (Exception [])
   \<and> (\<exists>response srv'.
         scrape sample_env (sample_request\<lparr>url := ''https://silent.example/''\<rparr>) sample_server
           = (Inr response, srv')
         \<and> error response = Some [])
   \<and> fetch_page sample_env
         (sample_request\<lparr>url := ''https://cancelled.example/'', strategy := ''async''\<rparr>)
       = Inl (Escaping ''CancelledError'')
   \<and> fst (scrape sample_env
             (sample_request\<lparr>url := ''https://cancelled.example/'', strategy := ''async''\<rparr>)
             sample_server)
       = Inl ''CancelledError''"
  by (simp add: scrape_def scrape_try_def fetch_page_def select_fetcher_def
        fetch_kwargs_def sample_env_def sample_request_def Let_def)

lemma field_failure_isolated_aux:
  assumes fetch: "fetch_page env request = Inr page"
    and sels: "selectors request = Some sels" "distinct (map fst sels)" "(key, selector) \<in> set sels"
    and dh: "get_domain_hash (check_bracketed_host env) (url request) = Inr dh"
    and res: "scrape env request srv = (Inr response, srv')"
    and raises: "css page selector (Some (auto_save request)) = Inl e
        \<or> (css page selector (Some (auto_save request)) = Inr []
            \<and> (\<exists>entry a. stored_mapping (adaptive_store srv) dh key = Some entry
                  \<and> adapted entry = Some a \<and> a \<noteq> [] \<and> css page a None = Inl e))"
    and res2: "scrape env (request\<lparr>selectors := Some (filter (\<lambda>item. fst item \<noteq> key) sels)\<rparr>) srv
                 = (Inr response2, srv2)"
  shows "success response \<and> error response = None
       \<and> field_of response key = Some (Text (''Error: '' @ e))
       \<and> adapted_with response key = None
       \<and> (\<forall>k. k \<noteq> key \<longrightarrow> field_of response k = field_of response2 k
                          \<and> adapted_with response k = adapted_with response2 k)
       \<and> srv' = srv2"
proof -
  let ?step = "scrape_field env request page dh (adaptive_store srv dh \<noteq> None)"
  let ?s0 = "\<lparr>adaptive_store = adaptive_store srv, clock_reads = Suc (clock_reads srv),
              extracted_data = [], adaptive_used = []\<rparr>"
  let ?request2 = "request\<lparr>selectors := Some (filter (\<lambda>item. fst item \<noteq> key) sels)\<rparr>"
  obtain pre post where split: "sels = pre @ (key, selector) # post"
    and pre: "key \<notin> fst ` set pre" and post: "key \<notin> fst ` set post"
    using split_at_key[OF sels(2,3)] by blast
  have "filter (\<lambda>item. fst item \<noteq> key) pre = pre" "filter (\<lambda>item. fst item \<noteq> key) post = post"
    using pre post by (auto simp: filter_id_conv)
  then have filt: "filter (\<lambda>item. fst item \<noteq> key) sels = pre @ post"
    by (simp add: split)
  define s1 where "s1 = foldl ?step ?s0 pre"
  define fin where "fin = foldl ?step ?s0 sels"
  define fin2 where "fin2 = foldl ?step ?s0 (pre @ post)"
  have fin: "fin = foldl ?step (?step s1 (key, selector)) post"
    by (simp add: fin_def s1_def split)
  have fin2: "fin2 = foldl ?step s1 post"
    by (simp add: fin2_def s1_def)
  note fr1 = loop_frame[OF pre, of env request page dh "adaptive_store srv dh \<noteq> None" ?s0 dh]
  have u1: "map_of (adaptive_used s1) key = None"
    and st1: "stored_mapping (adaptive_store s1) dh key = stored_mapping (adaptive_store srv) dh key"
    using fr1 by (simp_all add: s1_def)
  have ds: "domain_selectors (adaptive_store srv dh \<noteq> None) dh (adaptive_store s1) key
             = stored_mapping (adaptive_store srv) dh key"
    by (rule dsel_initial[OF st1])
  have eq: "?step s1 (key, selector)
      = s1\<lparr>extracted_data := AList.update key (Text (''Error: '' @ e)) (extracted_data s1)\<rparr>"
    using raises
  proof
    assume "css page selector (Some (auto_save request)) = Inl e"
    then show ?thesis by (rule field_raises)
  next
    assume "css page selector (Some (auto_save request)) = Inr []
        \<and> (\<exists>entry a. stored_mapping (adaptive_store srv) dh key = Some entry
              \<and> adapted entry = Some a \<and> a \<noteq> [] \<and> css page a None = Inl e)"
    then obtain entry a where c0: "css page selector (Some (auto_save request)) = Inr []"
      and en: "stored_mapping (adaptive_store srv) dh key = Some entry"
      and ad: "adapted entry = Some a" "a \<noteq> []" and c1: "css page a None = Inl e"
      by blast
    have ds': "domain_selectors (adaptive_store srv dh \<noteq> None) dh (adaptive_store s1) key = Some entry"
      using ds en by simp
    show ?thesis
      by (rule field_adapted_raises[OF c0 ds' ad c1])
  qed
  have ag0: "agree_except key (?step s1 (key, selector)) s1"
    unfolding eq by (simp add: agree_except_def update_conv')
  have ag: "agree_except key fin fin2"
    unfolding fin fin2 by (rule loop_agree[OF ag0 post])
  note fr2 = loop_frame[OF post, of env request page dh "adaptive_store srv dh \<noteq> None"
               "?step s1 (key, selector)" dh]
  have k1: "map_of (extracted_data fin) key = Some (Text (''Error: '' @ e))"
    and k2: "map_of (adaptive_used fin) key = None"
    using fr2 u1 unfolding fin eq by (simp_all add: update_conv')
  note r1 = scrape_selectors_gen[OF fetch sels(1) dh res fin_def]
  have fetch2: "fetch_page env ?request2 = Inr page"
    using fetch by (simp add: fetch_page_selectors_irrelevant)
  have sels2: "selectors ?request2 = Some (pre @ post)"
    by (simp add: filt)
  have dh2: "get_domain_hash (check_bracketed_host env) (url ?request2) = Inr dh"
    using dh by simp
  have step2: "scrape_field env ?request2 page dh (adaptive_store srv dh \<noteq> None) = ?step"
    by (intro ext) (rule scrape_field_selectors_irrelevant)
  have fin2': "fin2 = foldl (scrape_field env ?request2 page dh (adaptive_store srv dh \<noteq> None))
                        ?s0 (pre @ post)"
    unfolding step2 by (rule fin2_def)
  note r2 = scrape_selectors_gen[OF fetch2 sels2 dh2 res2 fin2']
  have "field_of response k = field_of response2 k \<and> adapted_with response k = adapted_with response2 k"
    if "k \<noteq> key" for k
    using ag that r1(1,2)[of k] r2(1,2)[of k] by (simp add: agree_except_def)
  moreover have "srv' = srv2"
    using ag r1(3) r2(3) by (simp add: agree_except_def)
  ultimately show ?thesis
    using r1(1,2,4,5) k1 k2 by simp
qed

text \<open>
  Claim C6.  When applying a selector of a field raises (the requested selector, or the
  stored adapted selector applied after the requested one matched nothing), the request
  still succeeds without error, the field carries the error value \<^verbatim>\<open>Error: <message>\<close> and
  is not listed in \<^verbatim>\<open>adaptive_selectors\<close>.  Every other field comes out exactly as in the
  same request without the failing field, and so does the store.
\<close>

theorem scrape_field_failure_isolated:
  assumes fetch: "fetch_page env request = Inr page"
    and sels: "selectors request = Some sels" "distinct (map fst sels)" "(key, selector) \<in> set sels"
    and dh: "get_domain_hash (check_bracketed_host env) (url request) = Inr dh"
    and raises: "css page selector (Some (auto_save request)) = Inl e
        \<or> (css page selector (Some (auto_save request)) = Inr []
            \<and> (\<exists>entry a. stored_mapping (adaptive_store srv) dh key = Some entry
                  \<and> adapted entry = Some a \<and> a \<noteq> [] \<and> css page a None = Inl e))"
  shows "\<exists>response srv' response2 srv2.
           scrape env request srv = (Inr response, srv')
           \<and> scrape env (request\<lparr>selectors := Some (filter (\<lambda>item. fst item \<noteq> key) sels)\<rparr>) srv
               = (Inr response2, srv2)
           \<and> success response \<and> error response = None
           \<and> field_of response key = Some (Text (''Error: '' @ e))
           \<and> adapted_with response key = None
           \<and> (\<forall>k. k \<noteq> key \<longrightarrow> field_of response k = field_of response2 k
                              \<and> adapted_with response k = adapted_with response2 k)
           \<and> srv' = srv2"
proof -
  let ?request2 = "request\<lparr>selectors := Some (filter (\<lambda>item. fst item \<noteq> key) sels)\<rparr>"
  obtain response srv' where res: "scrape env request srv = (Inr response, srv')"
    using scrape_returns[OF fetch] by blast
  have "fetch_page env ?request2 = Inr page"
    using fetch by (simp add: fetch_page_selectors_irrelevant)
  then obtain response2 srv2 where res2: "scrape env ?request2 srv = (Inr response2, srv2)"
    using scrape_returns by blast
  note th = field_failure_isolated_aux[OF fetch sels dh res raises res2]
  show ?thesis
    by (rule exI[of _ response], rule exI[of _ srv'], rule exI[of _ response2],
        rule exI[of _ srv2], rule conjI[OF res conjI[OF res2 th]])
qed

theorem scrape_field_failure_isolated_witness:
  "\<exists>response srv' response2.
     scrape sample_env sample_request sample_server = (Inr response, srv')
     \<and> scrape sample_env
           (sample_request\<lparr>selectors := Some (filter (\<lambda>item. fst item \<noteq> ''broken'') sample_selectors)\<rparr>)
           sample_server
         = (Inr response2, srv')
     \<and> success response
     \<and> error response = None
     \<and> field_of response ''broken'' = Some (Text ''Error: Invalid selector'')
     \<and> adapted_with response ''broken'' = None
     \<and> field_of response ''items'' = field_of response2 ''items''"
proof -
  have mem: "(''broken'', ''['') \<in> set sample_selectors"
    by (simp add: sample_selectors_def)
  have raises: "css sample_page ''['' (Some (auto_save sample_request)) = Inl ''Invalid selector''
      \<or> (css sample_page ''['' (Some (auto_save sample_request)) = Inr []
          \<and> (\<exists>entry a. stored_mapping (adaptive_store sample_server) sample_hash ''broken'' = Some entry
                \<and> adapted entry = Some a \<and> a \<noteq> [] \<and> css sample_page a None = Inl ''Invalid selector''))"
    by (simp add: sample_page_def)
  have ne: "''items'' \<noteq> ''broken''"
    by simp
  from scrape_field_failure_isolated[OF sample_fetch sample_sels sample_distinct mem sample_dh raises]
  obtain response srv' response2 srv2 where
    "scrape sample_env sample_request sample_server = (Inr response, srv')"
    "scrape sample_env
       (sample_request\<lparr>selectors := Some (filter (\<lambda>item. fst item \<noteq> ''broken'') sample_selectors)\<rparr>)
       sample_server
     = (Inr response2, srv2)"
    "success response" "error response = None"
    "field_of response ''broken'' = Some (Text (''Error: '' @ ''Invalid selector''))"
    "adapted_with response ''broken'' = None"
    "\<forall>k. k \<noteq> ''broken'' \<longrightarrow> field_of response k = field_of response2 k
                              \<and> adapted_with response k = adapted_with response2 k"
    "srv' = srv2"
    by blast
  with ne show ?thesis
    by auto
qed



section \<open>The crawler\<close>

lemma crawl_loop_invariant:
  assumes "I s"
    and "\<And>s. I s \<Longrightarrow> crawl_continues options s \<Longrightarrow> I (crawl_step remote start_url options s)"
  shows "I (crawl_loop remote start_url options s)"
proof -
  have "I s \<Longrightarrow> (\<And>s. I s \<Longrightarrow> crawl_continues options s
            \<Longrightarrow> I (crawl_step remote start_url options s))
        \<Longrightarrow> I (crawl_loop remote start_url options s)"
  proof (induction remote start_url options s rule: crawl_loop.induct)
    case (1 remote start_url options s)
    show ?case
    proof (cases "crawl_continues options s")
      case True
      have "I (crawl_step remote start_url options s)"
        using "1.prems" True by blast
      then have "I (crawl_loop remote start_url options (crawl_step remote start_url options s))"
        using "1.IH"[OF True] "1.prems"(2) by blast
      then show ?thesis
        using True by (subst crawl_loop.simps) simp
    next
      case False
      then show ?thesis
        using "1.prems"(1) by (subst crawl_loop.simps) simp
    qed
  qed
  then show ?thesis
    using assms by blast
qed

lemma contains_iff: "contains pattern u \<longleftrightarrow> (\<exists>a b. u = a @ pattern @ b)"
proof (induction u)
  case Nil
  then show ?case by simp
next
  case (Cons c cs)
  show ?case
  proof
    assume "contains pattern (c # cs)"
    then consider "prefix pattern (c # cs)" | "contains pattern cs" by auto
    then show "\<exists>a b. c # cs = a @ pattern @ b"
    proof cases
      case 1
      then obtain b where "c # cs = pattern @ b" by (auto simp: prefix_def)
      then have "c # cs = [] @ pattern @ b" by simp
      then show ?thesis by blast
    next
      case 2
      then obtain a b where "cs = a @ pattern @ b" using Cons.IH by blast
      then have "c # cs = (c # a) @ pattern @ b" by simp
      then show ?thesis by blast
    qed
  next
    assume "\<exists>a b. c # cs = a @ pattern @ b"
    then obtain a b where ab: "c # cs = a @ pattern @ b" by blast
    show "contains pattern (c # cs)"
    proof (cases a)
      case Nil
      then have "prefix pattern (c # cs)" using ab by (simp add: prefix_def)
      then show ?thesis by simp
    next
      case (Cons x a')
      then have "cs = a' @ pattern @ b" using ab by simp
      then have "contains pattern cs" using Cons.IH by blast
      then show ?thesis by simp
    qed
  qed
qed

lemma add_links_keeps:
  "add_links start_url options page_data s = (r, s') \<Longrightarrow> results s' = results s"
  "add_links start_url options page_data s = (r, s') \<Longrightarrow> fetched s' = fetched s"
  "add_links start_url options page_data s = (r, s') \<Longrightarrow> visited s' = visited s"
  by (auto simp: add_links_def split: if_splits prod.splits)

lemma crawl_step_fetch_log:
  assumes "set (fetched s) \<subseteq> visited s" "distinct (fetched s)"
    "result_url ` set (results s) \<subseteq> set (fetched s)"
  shows "set (fetched (crawl_step remote start_url options s))
           \<subseteq> visited (crawl_step remote start_url options s)
       \<and> distinct (fetched (crawl_step remote start_url options s))
       \<and> result_url ` set (results (crawl_step remote start_url options s))
           \<subseteq> set (fetched (crawl_step remote start_url options s))"
  using assms
  by (cases "to_visit s")
     (auto simp: crawl_step_def add_links_keeps Let_def
           split: sum.splits prod.splits option.splits)

lemma crawl_step_excluded:
  assumes "list_all (\<lambda>u. \<not> excluded options u) (fetched s)"
  shows "list_all (\<lambda>u. \<not> excluded options u) (fetched (crawl_step remote start_url options s))"
  using assms
  by (cases "to_visit s")
     (auto simp: crawl_step_def add_links_keeps Let_def
           split: sum.splits prod.splits option.splits)

text \<open>
  What the page budget does bound: the calls of \<^verbatim>\<open>scrape_page.remote\<close>, and so the
  successes; every call leaves one or two results.
\<close>

lemma crawl_step_budget:
  assumes "length (fetched s) \<le> length (results s)"
    "length (filter is_success (results s)) \<le> length (fetched s)"
    "length (results s) \<le> 2 * length (fetched s)"
    "int (length (fetched s)) \<le> max 0 (max_pages options)"
    "crawl_continues options s"
  shows "length (fetched (crawl_step remote start_url options s))
           \<le> length (results (crawl_step remote start_url options s))
       \<and> length (filter is_success (results (crawl_step remote start_url options s)))
           \<le> length (fetched (crawl_step remote start_url options s))
       \<and> length (results (crawl_step remote start_url options s))
           \<le> 2 * length (fetched (crawl_step remote start_url options s))
       \<and> int (length (fetched (crawl_step remote start_url options s)))
           \<le> max 0 (max_pages options)"
  using assms
  by (cases "to_visit s")
     (auto simp: crawl_step_def crawl_continues_def add_links_keeps is_success_def Let_def
           split: sum.splits prod.splits option.splits)

lemma crawl_run_budget:
  "int (length (fetched (crawl_run remote start_url options))) \<le> max 0 (max_pages options)
   \<and> length (filter is_success (results (crawl_run remote start_url options)))
       \<le> length (fetched (crawl_run remote start_url options))
   \<and> length (results (crawl_run remote start_url options))
       \<le> 2 * length (fetched (crawl_run remote start_url options))"
proof -
  have "length (fetched (crawl_run remote start_url options))
          \<le> length (results (crawl_run remote start_url options))
      \<and> length (filter is_success (results (crawl_run remote start_url options)))
          \<le> length (fetched (crawl_run remote start_url options))
      \<and> length (results (crawl_run remote start_url options))
          \<le> 2 * length (fetched (crawl_run remote start_url options))
      \<and> int (length (fetched (crawl_run remote start_url options))) \<le> max 0 (max_pages options)"
    unfolding crawl_run_def
    by (rule crawl_loop_invariant[where I = "\<lambda>s. length (fetched s) \<le> length (results s)
          \<and> length (filter is_success (results s)) \<le> length (fetched s)
          \<and> length (results s) \<le> 2 * length (fetched s)
          \<and> int (length (fetched s)) \<le> max 0 (max_pages options)"])
       (simp_all add: crawl_step_budget)
  then show ?thesis by simp
qed

lemma crawl_run_fetch_log:
  "set (fetched (crawl_run remote start_url options)) \<subseteq> visited (crawl_run remote start_url options)
   \<and> distinct (fetched (crawl_run remote start_url options))
   \<and> result_url ` set (results (crawl_run remote start_url options))
       \<subseteq> set (fetched (crawl_run remote start_url options))"
  unfolding crawl_run_def
  by (rule crawl_loop_invariant[where I = "\<lambda>s. set (fetched s) \<subseteq> visited s \<and> distinct (fetched s)
          \<and> result_url ` set (results s) \<subseteq> set (fetched s)"])
     (simp_all add: crawl_step_fetch_log)

lemma crawl_run_excluded:
  "list_all (\<lambda>u. \<not> excluded options u) (fetched (crawl_run remote start_url options))"
  unfolding crawl_run_def
  by (rule crawl_loop_invariant[where I = "\<lambda>s. list_all (\<lambda>u. \<not> excluded options u) (fetched s)"])
     (simp_all add: crawl_step_excluded)

lemma crawl_loop_continue:
  "crawl_continues options s \<Longrightarrow>
   crawl_loop remote start_url options s
     = crawl_loop remote start_url options (crawl_step remote start_url options s)"
  by (subst crawl_loop.simps) simp

lemma crawl_loop_stop:
  "\<not> crawl_continues options s \<Longrightarrow> crawl_loop remote start_url options s = s"
  by (subst crawl_loop.simps) simp

lemma sample_crawl:
  "crawl_run sample_site ''https://example.com/'' sample_options
   = \<lparr>visited = {''https://example.com/b'', ''https://example.com/admin'',
                 ''https://example.com/a'', ''https://example.com/''},
      to_visit = [''https://example.com/b''],
      results =
        [PageSuccess ''https://example.com/''
           \<lparr>pd_url = ''https://example.com/'', pd_status = 200,
              links = Some [\<lparr>href = JsString ''https://example.com/a'', link_text = ''A''\<rparr>,
                            \<lparr>href = JsString ''https://example.com/admin'', link_text = ''Admin''\<rparr>,
                            \<lparr>href = JsString ''https://example.com/a'', link_text = ''A again''\<rparr>,
                            \<lparr>href = JsString ''https://other.org/'', link_text = ''Elsewhere''\<rparr>,
                            \<lparr>href = JsString ''https://example.com/b'', link_text = ''B''\<rparr>],
              pd_rest = []\<rparr>,
         PageSuccess ''https://example.com/a''
           \<lparr>pd_url = ''https://example.com/a'', pd_status = 200,
              links = Some [\<lparr>href = JsString ''https://example.com/'', link_text = ''Home''\<rparr>,
                            \<lparr>href = JsString ''https://example.com/b'', link_text = ''B''\<rparr>],
              pd_rest = []\<rparr>,
         PageFailed ''https://example.com/b'' ''net::ERR_CONNECTION_RESET''],
      fetched = [''https://example.com/'', ''https://example.com/a'', ''https://example.com/b'']\<rparr>"
  by (simp add: crawl_run_def crawl_loop_continue crawl_loop_stop crawl_continues_def
        crawl_step_def add_links_def no_startswith_def excluded_def not_included_def max_pages_def
        include_patterns_def exclude_patterns_def sample_site_def sample_options_def Let_def)

text \<open>
  Claim C8 does not hold of the code.  With \<^verbatim>\<open>maxPages\<close> 1 and links followed, a page whose
  first link has an \<^verbatim>\<open>href\<close> that is not a string is fetched once and recorded twice, as a
  success and as a failure: the report has two pages for a budget of one.  The link
  loop runs inside the \<^verbatim>\<open>try\<close>, after the success has been appended.
\<close>

theorem crawl_link_error_recorded_twice:
  "max_pages svg_options = 1
   \<and> fetched (crawl_run svg_site ''https://example.com/'' svg_options) = [''https://example.com/'']
   \<and> map result_url (pages (crawl_site svg_site ''https://example.com/'' svg_options))
       = [''https://example.com/'', ''https://example.com/'']
   \<and> map is_success (pages (crawl_site svg_site ''https://example.com/'' svg_options))
       = [True, False]
   \<and> totalPages (stats (crawl_site svg_site ''https://example.com/'' svg_options)) = 2"
  by (simp add: crawl_site_def crawl_run_def crawl_loop_continue crawl_loop_stop
        crawl_continues_def crawl_step_def add_links_def excluded_def not_included_def
        max_pages_def include_patterns_def exclude_patterns_def svg_site_def svg_options_def
        is_success_def Let_def)

text \<open>
  Claim C9.  A URL that contains one of the exclude patterns is never passed to
  \<^verbatim>\<open>scrape_page.remote\<close> and never appears among the recorded pages.  Nothing is assumed of
  the include patterns: the URL may match one of them as well.
\<close>

theorem crawl_excluded_never_fetched:
  assumes "pattern \<in> set (exclude_patterns options)" "contains pattern u"
  shows "u \<notin> set (fetched (crawl_run remote start_url options))
       \<and> u \<notin> result_url ` set (pages (crawl_site remote start_url options))"
proof -
  have ex: "excluded options u"
    using assms by (auto simp: excluded_def list_ex_iff)
  have "u \<notin> set (fetched (crawl_run remote start_url options))"
    using crawl_run_excluded[of options remote start_url] ex
    by (auto simp: list_all_iff)
  moreover have "result_url ` set (pages (crawl_site remote start_url options))
      \<subseteq> set (fetched (crawl_run remote start_url options))"
    using crawl_run_fetch_log[of remote start_url options]
    by (simp add: crawl_site_def Let_def)
  ultimately show ?thesis by blast
qed

theorem crawl_excluded_never_fetched_witness:
  "''/admin'' \<in> set (exclude_patterns sample_options)
   \<and> contains ''/admin'' ''https://example.com/admin''
   \<and> list_ex (\<lambda>pattern. contains pattern ''https://example.com/admin'') (include_patterns sample_options)
   \<and> ''https://example.com/admin'' \<in> visited (crawl_run sample_site ''https://example.com/'' sample_options)
   \<and> ''https://example.com/admin'' \<notin> set (fetched (crawl_run sample_site ''https://example.com/'' sample_options))
   \<and> ''https://example.com/admin''
       \<notin> result_url ` set (pages (crawl_site sample_site ''https://example.com/'' sample_options))"
proof -
  have p: "''/admin'' \<in> set (exclude_patterns sample_options)"
    by (simp add: exclude_patterns_def sample_options_def)
  have c: "contains ''/admin'' ''https://example.com/admin''"
    by simp
  have i: "list_ex (\<lambda>pattern. contains pattern ''https://example.com/admin'') (include_patterns sample_options)"
    by (simp add: include_patterns_def sample_options_def)
  have v: "''https://example.com/admin'' \<in> visited (crawl_run sample_site ''https://example.com/'' sample_options)"
    by (simp add: sample_crawl)
  show ?thesis
    using crawl_excluded_never_fetched[OF p c, of sample_site "''https://example.com/''"] p c i v
    by simp
qed
end
